theory Spec2Isabelle
  imports Main
begin

section \<open>Python strings\<close>

text \<open>
  A Python \<open>str\<close> is modelled as a \<^typ>\<open>string\<close> whose characters are read as the code
  points U+0000 to U+00FF.  On this range \<open>str.lower\<close> maps A-Z and the Latin-1 capital
  letters (U+00C0 to U+00DE, the multiplication sign U+00D7 apart) to the code point 32
  higher and leaves every other character alone; \<open>str.strip\<close> removes the characters for
  which \<open>str.isspace\<close> holds: U+0009 to U+000D, U+001C to U+0020, U+0085 and U+00A0.
\<close>

definition lower_char :: "char \<Rightarrow> char" where
  "lower_char c =
     (let n = (of_char c :: nat)
      in if (65 \<le> n \<and> n \<le> 90) \<or> (192 \<le> n \<and> n \<le> 214) \<or> (216 \<le> n \<and> n \<le> 222)
         then char_of (n + 32) else c)"

definition lower :: "string \<Rightarrow> string" where
  "lower s = map lower_char s"

definition is_space :: "char \<Rightarrow> bool" where
  "is_space c =
     (let n = (of_char c :: nat)
      in (9 \<le> n \<and> n \<le> 13) \<or> (28 \<le> n \<and> n \<le> 32) \<or> n = 133 \<or> n = 160)"

definition lstrip :: "string \<Rightarrow> string" where
  "lstrip s = dropWhile is_space s"

definition rstrip :: "string \<Rightarrow> string" where
  "rstrip s = rev (dropWhile is_space (rev s))"

definition strip :: "string \<Rightarrow> string" where
  "strip s = rstrip (lstrip s)"

text \<open>\<open>sub in s\<close> for two strings: \<open>sub\<close> occurs in \<open>s\<close> as a contiguous block.\<close>

fun startswith :: "string \<Rightarrow> string \<Rightarrow> bool" where
  "startswith s [] = True"
| "startswith [] (p # ps) = False"
| "startswith (c # cs) (p # ps) = (c = p \<and> startswith cs ps)"

fun str_in :: "string \<Rightarrow> string \<Rightarrow> bool" where
  "str_in sub [] = (sub = [])"
| "str_in sub (c # cs) = (startswith (c # cs) sub \<or> str_in sub cs)"

text \<open>\<open>str(n)\<close> for an integer: decimal digits, with a minus sign when negative.\<close>

definition digit_char :: "nat \<Rightarrow> char" where
  "digit_char d = char_of (48 + d)"

function str_nat :: "nat \<Rightarrow> string" where
  "str_nat n = (if n < 10 then [digit_char n] else str_nat (n div 10) @ [digit_char (n mod 10)])"
  by pat_completeness auto
termination
  by (relation "measure id") auto

declare str_nat.simps [simp del]

definition str_int :: "int \<Rightarrow> string" where
  "str_int i = (if i < 0 then CHR ''-'' # str_nat (nat (- i)) else str_nat (nat i))"

section \<open>The data frame\<close>

text \<open>
  A cell of the sheet, as \<open>pandas\<close> hands it over: the missing value \<open>NaN\<close>, a text or a
  whole number.  \<open>pd.notna\<close> is false on \<open>NaN\<close> only, and \<open>str\<close> renders the cell.
\<close>

datatype cell = NaN | Str string | Num int

fun notna :: "cell \<Rightarrow> bool" where
  "notna NaN = False"
| "notna (Str s) = True"
| "notna (Num n) = True"

fun str_cell :: "cell \<Rightarrow> string" where
  "str_cell NaN = ''nan''"
| "str_cell (Str s) = s"
| "str_cell (Num n) = str_int n"

text \<open>
  A row of the frame.  The four base columns carry the types of the data model: a text
  for \<open>Name\<close>, \<open>Stage\<close> and \<open>Attribute\<close>, and for \<open>Number\<close> a whole number
  or the missing value (\<open>None\<close> here).  All other columns follow in \<open>others\<close>, in
  column order, each with its label (\<open>read_excel\<close> makes the labels distinct).
\<close>

record row =
  Number :: "int option"
  Name :: string
  Stage :: string
  Attribute :: string
  others :: "(string \<times> cell) list"

type_synonym dataframe = "row list"

definition base_columns :: "string list" where
  "base_columns = [''Number'', ''Name'', ''Stage'', ''Attribute'']"

text \<open>
  \<open>row.index\<close>: the labels of the row; \<open>row[col]\<close>: the cell under a label.  The
  index lists the base columns first; the code reads the order of the index only among
  the labels that contain \<open>Unnamed\<close>, which are labels of \<open>others\<close>.
\<close>

definition row_index :: "row \<Rightarrow> string list" where
  "row_index r = base_columns @ map fst (others r)"

definition row_get :: "row \<Rightarrow> string \<Rightarrow> cell option" where
  "row_get r col =
     (if col = ''Number'' then Some (case Number r of None \<Rightarrow> NaN | Some n \<Rightarrow> Num n)
      else if col = ''Name'' then Some (Str (Name r))
      else if col = ''Stage'' then Some (Str (Stage r))
      else if col = ''Attribute'' then Some (Str (Attribute r))
      else map_of (others r) col)"

section \<open>Successor names of a row\<close>

text \<open>
  \<open>_get_evolutions_from_row\<close>: the loop over the evolution columns, appending to
  \<open>evolutions\<close>.  The guard \<open>col in row.index\<close> is the lookup succeeding.
\<close>

definition evolution_columns :: "row \<Rightarrow> string list" where
  "evolution_columns r = ''Evolutions'' # filter (\<lambda>col. str_in ''Unnamed'' col) (row_index r)"

fun collect_evolutions :: "row \<Rightarrow> string list \<Rightarrow> string list \<Rightarrow> string list" where
  "collect_evolutions r [] evolutions = evolutions"
| "collect_evolutions r (col # cols) evolutions =
     (if col \<in> set (row_index r) then
        (case row_get r col of
           Some v \<Rightarrow>
             if notna v \<and> strip (str_cell v) \<noteq> ''''
             then collect_evolutions r cols (evolutions @ [strip (str_cell v)])
             else collect_evolutions r cols evolutions
         | None \<Rightarrow> collect_evolutions r cols evolutions)
      else collect_evolutions r cols evolutions)"

definition get_evolutions_from_row :: "row \<Rightarrow> string list" where
  "get_evolutions_from_row r = collect_evolutions r (evolution_columns r) []"

section \<open>Python values of the response\<close>

text \<open>
  The dictionaries the service builds hold texts, whole numbers, \<open>None\<close>, booleans,
  lists and dictionaries with text keys; a dictionary keeps its keys in insertion order.
\<close>

datatype json =
  JNull
| JBool bool
| JInt int
| JStr string
| JList "json list"
| JDict "(string \<times> json) list"

text \<open>\<open>int(row['Number']) if pd.notna(row['Number']) else None\<close>\<close>

definition number_or_none :: "row \<Rightarrow> json" where
  "number_or_none r = (case Number r of Some n \<Rightarrow> JInt n | None \<Rightarrow> JNull)"

text \<open>The entry of a row in \<open>preEvolutions\<close> and \<open>postEvolutions\<close>.\<close>

definition evolution_entry :: "row \<Rightarrow> json" where
  "evolution_entry r =
     JDict [(''name'', JStr (Name r)), (''stage'', JStr (Stage r)), (''number'', number_or_none r)]"

text \<open>The entry of a successor name that no row carries.\<close>

definition name_only_entry :: "string \<Rightarrow> json" where
  "name_only_entry evo_name =
     JDict [(''name'', JStr evo_name), (''stage'', JNull), (''number'', JNull)]"

section \<open>Predecessors and successors\<close>

text \<open>
  \<open>_find_previous_evolutions\<close>: one pass over the rows of the frame; a row is appended
  when any of its successor names equals the searched name after lowercasing both.
\<close>

fun previous_loop :: "row list \<Rightarrow> string \<Rightarrow> json list \<Rightarrow> json list" where
  "previous_loop [] digimon_name_lower previous_evolutions = previous_evolutions"
| "previous_loop (r # rows) digimon_name_lower previous_evolutions =
     (let evolutions = get_evolutions_from_row r
      in if list_ex (\<lambda>evo. digimon_name_lower = lower evo) evolutions
         then previous_loop rows digimon_name_lower (previous_evolutions @ [evolution_entry r])
         else previous_loop rows digimon_name_lower previous_evolutions)"

definition find_previous_evolutions :: "dataframe \<Rightarrow> string \<Rightarrow> json list" where
  "find_previous_evolutions df digimon_name = previous_loop df (lower digimon_name) []"

text \<open>
  \<open>df[df['Name'].str.lower() == name.lower()]\<close>: the rows whose name equals the given
  one after lowercasing both, in the order of the frame.
\<close>

definition rows_by_name :: "dataframe \<Rightarrow> string \<Rightarrow> row list" where
  "rows_by_name df name = filter (\<lambda>r. lower (Name r) = lower name) df"

text \<open>
  \<open>_find_next_evolutions\<close>: one entry for each successor name of the row, from the
  first row of that name (\<open>iloc[0]\<close>) or, when there is none, the name alone.
\<close>

fun next_loop :: "dataframe \<Rightarrow> string list \<Rightarrow> json list \<Rightarrow> json list" where
  "next_loop df [] next_evolutions = next_evolutions"
| "next_loop df (evo_name # names) next_evolutions =
     (case rows_by_name df evo_name of
        evo_row # _ \<Rightarrow> next_loop df names (next_evolutions @ [evolution_entry evo_row])
      | [] \<Rightarrow> next_loop df names (next_evolutions @ [name_only_entry evo_name]))"

definition find_next_evolutions :: "dataframe \<Rightarrow> row \<Rightarrow> json list" where
  "find_next_evolutions df digimon_row = next_loop df (get_evolutions_from_row digimon_row) []"

section \<open>The evolution line\<close>

definition current_digimon :: "row \<Rightarrow> json" where
  "current_digimon r =
     JDict [(''name'', JStr (Name r)), (''number'', number_or_none r),
            (''stage'', JStr (Stage r)), (''attribute'', JStr (Attribute r))]"

text \<open>The dictionary built for one matching row.\<close>

definition lineage :: "dataframe \<Rightarrow> row \<Rightarrow> json" where
  "lineage df digimon_row =
     JDict [(''currentDigimon'', current_digimon digimon_row),
            (''preEvolutions'', JList (find_previous_evolutions df (Name digimon_row))),
            (''postEvolutions'', JList (find_next_evolutions df digimon_row))]"

fun results_loop :: "dataframe \<Rightarrow> row list \<Rightarrow> json list \<Rightarrow> json list" where
  "results_loop df [] results = results"
| "results_loop df (digimon_row # matches) results =
     results_loop df matches (results @ [lineage df digimon_row])"

text \<open>
  The body of \<open>get_evolution_line\<close> up to the value handed to \<open>json.dumps\<close>.
\<close>

definition not_found_response :: "string \<Rightarrow> json" where
  "not_found_response digimon_name =
     JDict [(''error'', JBool True), (''message'', JStr (''Digimon not found: '' @ digimon_name))]"

definition multiple_response :: "string \<Rightarrow> json list \<Rightarrow> json" where
  "multiple_response digimon_name results =
     JDict [(''message'', JStr (''Found '' @ str_nat (length results) @ '' results for: '' @ digimon_name)),
            (''results'', JList results)]"

definition evolution_line_response :: "dataframe \<Rightarrow> string \<Rightarrow> json" where
  "evolution_line_response df digimon_name =
     (let digimon_matches = rows_by_name df digimon_name
      in if digimon_matches = [] then not_found_response digimon_name
         else
           (let results = results_loop df digimon_matches []
            in if length results = 1 then hd results
               else multiple_response digimon_name results))"

section \<open>Serialisation\<close>

text \<open>
  \<open>json.dumps(response, indent=2, ensure_ascii=False)\<close>.  A text is written between
  double quotes, with the backslash, the double quote and the control characters below
  U+0020 escaped and every other character as it is.  An empty list is \<open>[]\<close> and an
  empty dictionary \<open>{}\<close>; otherwise each item stands on a line of its own, indented by
  two spaces for each level of nesting, items are separated by a comma, and a key is
  followed by a colon and a space.
\<close>

definition hex_digit :: "nat \<Rightarrow> char" where
  "hex_digit d = (if d < 10 then char_of (48 + d) else char_of (87 + d))"

definition escape_char :: "char \<Rightarrow> string" where
  "escape_char c =
     (if c = CHR 0x5C then [CHR 0x5C, CHR 0x5C]
      else if c = CHR 0x22 then [CHR 0x5C, CHR 0x22]
      else if c = CHR 0x08 then [CHR 0x5C, CHR ''b'']
      else if c = CHR 0x0C then [CHR 0x5C, CHR ''f'']
      else if c = CHR 0x0A then [CHR 0x5C, CHR ''n'']
      else if c = CHR 0x0D then [CHR 0x5C, CHR ''r'']
      else if c = CHR 0x09 then [CHR 0x5C, CHR ''t'']
      else if (of_char c :: nat) < 32
        then [CHR 0x5C, CHR ''u'', CHR ''0'', CHR ''0'',
              hex_digit ((of_char c :: nat) div 16), hex_digit ((of_char c :: nat) mod 16)]
      else [c])"

definition encode_basestring :: "string \<Rightarrow> string" where
  "encode_basestring s = CHR 0x22 # concat (map escape_char s) @ [CHR 0x22]"

definition newline_indent :: "nat \<Rightarrow> string" where
  "newline_indent level = CHR 0x0A # replicate (2 * level) CHR '' ''"

fun iterencode :: "nat \<Rightarrow> json \<Rightarrow> string"
  and iterencode_list :: "nat \<Rightarrow> json list \<Rightarrow> string"
  and iterencode_dict :: "nat \<Rightarrow> (string \<times> json) list \<Rightarrow> string"
where
  "iterencode level JNull = ''null''"
| "iterencode level (JBool b) = (if b then ''true'' else ''false'')"
| "iterencode level (JInt i) = str_int i"
| "iterencode level (JStr s) = encode_basestring s"
| "iterencode level (JList []) = ''[]''"
| "iterencode level (JList (v # vs)) =
     ''['' @ newline_indent (Suc level) @ iterencode_list (Suc level) (v # vs)
       @ newline_indent level @ '']''"
| "iterencode level (JDict []) = ''{}''"
| "iterencode level (JDict (kv # kvs)) =
     ''{'' @ newline_indent (Suc level) @ iterencode_dict (Suc level) (kv # kvs)
       @ newline_indent level @ ''}''"
| "iterencode_list level [] = []"
| "iterencode_list level [v] = iterencode level v"
| "iterencode_list level (v # w # vs) =
     iterencode level v @ '','' @ newline_indent level @ iterencode_list level (w # vs)"
| "iterencode_dict level [] = []"
| "iterencode_dict level [(k, v)] = encode_basestring k @ '': '' @ iterencode level v"
| "iterencode_dict level ((k, v) # kw # kvs) =
     encode_basestring k @ '': '' @ iterencode level v @ '','' @ newline_indent level
       @ iterencode_dict level (kw # kvs)"

definition json_dumps :: "json \<Rightarrow> string" where
  "json_dumps obj = iterencode 0 obj"

definition get_evolution_line :: "dataframe \<Rightarrow> string \<Rightarrow> string" where
  "get_evolution_line df digimon_name = json_dumps (evolution_line_response df digimon_name)"

section \<open>Reading a dictionary\<close>

text \<open>\<open>d.get(key)\<close>: the value stored under a key of a dictionary, if there is one.\<close>

fun dict_get :: "json \<Rightarrow> string \<Rightarrow> json option" where
  "dict_get (JDict kvs) key = map_of kvs key"
| "dict_get JNull key = None"
| "dict_get (JBool b) key = None"
| "dict_get (JInt i) key = None"
| "dict_get (JStr s) key = None"
| "dict_get (JList vs) key = None"

section \<open>Loading\<close>

text \<open>
  What \<open>pd.read_excel\<close> hands back: the column labels of the sheet and its rows.  The
  call may instead raise; \<open>Inl msg\<close> stands for an exception \<open>e\<close> with \<open>str(e) = msg\<close>.
\<close>

record sheet =
  columns :: "string list"
  data :: dataframe

type_synonym source = "string + sheet"

text \<open>
  What the \<open>print\<close> inside the \<open>try\<close> block does on the standard output of the
  process: it writes its line, or it raises (the line begins with the check mark U+2713,
  which an ASCII or a cp1252 output cannot encode); \<open>Fails msg\<close> stands for an
  exception \<open>e\<close> with \<open>str(e) = msg\<close>.  The text of the line plays no part in the result.
\<close>

datatype stdout = Writes | Fails string

text \<open>
  The exceptions of \<open>_load_data\<close>: the one \<open>read_excel\<close> raised, the \<open>ValueError\<close> of
  the column check, the one \<open>print\<close> raised, and the \<open>Exception\<close> the handler raises
  in their place.
\<close>

datatype exn = ReadError string | ValueError string | PrintError string | Exception string

fun str_exn :: "exn \<Rightarrow> string" where
  "str_exn (ReadError msg) = msg"
| "str_exn (ValueError msg) = msg"
| "str_exn (PrintError msg) = msg"
| "str_exn (Exception msg) = msg"

text \<open>
  \<open>str\<close> of a list of column labels, as the f-string renders \<open>missing_columns\<close>: each
  label between single quotes (the labels are those of \<open>base_columns\<close>, which need no
  escaping), separated by a comma and a space, within square brackets.
\<close>

fun join_labels :: "string list \<Rightarrow> string" where
  "join_labels [] = []"
| "join_labels [col] = [CHR 0x27] @ col @ [CHR 0x27]"
| "join_labels (col # col' # cols) = [CHR 0x27] @ col @ [CHR 0x27] @ '', '' @ join_labels (col' # cols)"

definition str_labels :: "string list \<Rightarrow> string" where
  "str_labels cols = ''['' @ join_labels cols @ '']''"

text \<open>
  The body of the \<open>try\<close> block: the read, the column check and the \<open>print\<close>, each of
  which may raise; and \<open>_load_data\<close> with its handler, which catches every exception of
  the body and raises an \<open>Exception\<close> with the message of the one it caught.
\<close>

definition load_body :: "stdout \<Rightarrow> source \<Rightarrow> exn + dataframe" where
  "load_body out src =
     (case src of
        Inl msg \<Rightarrow> Inl (ReadError msg)
      | Inr df \<Rightarrow>
          (let missing_columns = filter (\<lambda>col. col \<notin> set (columns df)) base_columns
           in if missing_columns \<noteq> []
              then Inl (ValueError (''Missing required columns: '' @ str_labels missing_columns))
              else (case out of
                      Fails msg \<Rightarrow> Inl (PrintError msg)
                    | Writes \<Rightarrow> Inr (data df))))"

definition load_data :: "stdout \<Rightarrow> source \<Rightarrow> exn + dataframe" where
  "load_data out src =
     (case load_body out src of
        Inl e \<Rightarrow> Inl (Exception (''Error loading Excel file: '' @ str_exn e))
      | Inr df \<Rightarrow> Inr df)"

section \<open>Parsing\<close>

text \<open>
  \<open>json.loads\<close>, for the texts this model can hold: \<open>None\<close> stands for a text on which
  the decoder raises, and also for one outside the model (a number with a fraction or an
  exponent, \<open>NaN\<close>, \<open>Infinity\<close>, an escape for a code point above U+00FF).  The
  decoder skips blanks, tabs, line feeds and carriage returns between tokens.
\<close>

definition is_json_ws :: "char \<Rightarrow> bool" where
  "is_json_ws c = (c = CHR '' '' \<or> c = CHR 0x09 \<or> c = CHR 0x0A \<or> c = CHR 0x0D)"

definition skip_ws :: "string \<Rightarrow> string" where
  "skip_ws s = dropWhile is_json_ws s"

text \<open>The escapes of a string: one character after the backslash, or \<open>u\<close> and four hex digits.\<close>

definition backslash :: "char \<Rightarrow> char option" where
  "backslash esc =
     (if esc = CHR 0x22 then Some (CHR 0x22)
      else if esc = CHR 0x5C then Some (CHR 0x5C)
      else if esc = CHR ''/'' then Some (CHR ''/'')
      else if esc = CHR ''b'' then Some (CHR 0x08)
      else if esc = CHR ''f'' then Some (CHR 0x0C)
      else if esc = CHR ''n'' then Some (CHR 0x0A)
      else if esc = CHR ''r'' then Some (CHR 0x0D)
      else if esc = CHR ''t'' then Some (CHR 0x09)
      else None)"

definition hex_value :: "char \<Rightarrow> nat option" where
  "hex_value c =
     (let n = (of_char c :: nat)
      in if 48 \<le> n \<and> n \<le> 57 then Some (n - 48)
         else if 97 \<le> n \<and> n \<le> 102 then Some (n - 87)
         else if 65 \<le> n \<and> n \<le> 70 then Some (n - 55)
         else None)"

definition decode_uXXXX :: "char \<Rightarrow> char \<Rightarrow> char \<Rightarrow> char \<Rightarrow> char option" where
  "decode_uXXXX h1 h2 h3 h4 =
     (case (hex_value h1, hex_value h2, hex_value h3, hex_value h4) of
        (Some a, Some b, Some c, Some d) \<Rightarrow>
          (let uni = ((a * 16 + b) * 16 + c) * 16 + d
           in if uni < 256 then Some (char_of uni) else None)
      | _ \<Rightarrow> None)"

text \<open>
  \<open>scanstring\<close>, from the character after the opening quote: the text up to the closing
  quote with its escapes decoded, and what follows the closing quote.  A control
  character below U+0020 inside the string is an error.
\<close>

fun scanstring :: "string \<Rightarrow> (string \<times> string) option" where
  "scanstring [] = None"
| "scanstring (c # cs) =
     (if c = CHR 0x22 then Some ([], cs)
      else if c = CHR 0x5C then
        (case cs of
           [] \<Rightarrow> None
         | esc # cs' \<Rightarrow>
             if esc = CHR ''u'' then
               (case cs' of
                  h1 # h2 # h3 # h4 # cs'' \<Rightarrow>
                    (case decode_uXXXX h1 h2 h3 h4 of
                       None \<Rightarrow> None
                     | Some ch \<Rightarrow>
                         (case scanstring cs'' of
                            None \<Rightarrow> None
                          | Some (chunk, rest) \<Rightarrow> Some (ch # chunk, rest)))
                | _ \<Rightarrow> None)
             else
               (case backslash esc of
                  None \<Rightarrow> None
                | Some ch \<Rightarrow>
                    (case scanstring cs' of
                       None \<Rightarrow> None
                     | Some (chunk, rest) \<Rightarrow> Some (ch # chunk, rest))))
      else if (of_char c :: nat) < 32 then None
      else
        (case scanstring cs of
           None \<Rightarrow> None
         | Some (chunk, rest) \<Rightarrow> Some (c # chunk, rest)))"

text \<open>
  A number: an optional minus sign, then a single \<open>0\<close> or a digit from 1 to 9 followed
  by any digits.  A fraction or an exponent after it makes the number a float.
\<close>

definition is_digit :: "char \<Rightarrow> bool" where
  "is_digit c = (48 \<le> (of_char c :: nat) \<and> (of_char c :: nat) \<le> 57)"

fun int_of_digits :: "nat \<Rightarrow> string \<Rightarrow> nat" where
  "int_of_digits acc [] = acc"
| "int_of_digits acc (d # ds) = int_of_digits (acc * 10 + ((of_char d :: nat) - 48)) ds"

fun frac_or_exp :: "string \<Rightarrow> bool" where
  "frac_or_exp (c # d # e # rest) =
     ((c = CHR ''.'' \<and> is_digit d)
      \<or> ((c = CHR ''e'' \<or> c = CHR ''E'')
          \<and> (is_digit d \<or> ((d = CHR ''+'' \<or> d = CHR ''-'') \<and> is_digit e))))"
| "frac_or_exp [c, d] = ((c = CHR ''.'' \<or> c = CHR ''e'' \<or> c = CHR ''E'') \<and> is_digit d)"
| "frac_or_exp [c] = False"
| "frac_or_exp [] = False"

definition match_integer :: "string \<Rightarrow> (string \<times> string) option" where
  "match_integer s =
     (case s of
        [] \<Rightarrow> None
      | d # t \<Rightarrow>
          if \<not> is_digit d then None
          else if d = CHR ''0'' then Some ([d], t)
          else Some (d # takeWhile is_digit t, dropWhile is_digit t))"

definition match_number :: "string \<Rightarrow> (json \<times> string) option" where
  "match_number s =
     (case s of
        [] \<Rightarrow> None
      | c # cs \<Rightarrow>
          (case match_integer (if c = CHR ''-'' then cs else s) of
             None \<Rightarrow> None
           | Some (ds, rest) \<Rightarrow>
               if frac_or_exp rest then None
               else Some (JInt (if c = CHR ''-'' then - int (int_of_digits 0 ds)
                                else int (int_of_digits 0 ds)), rest)))"

text \<open>
  \<open>dict(pairs)\<close>: a later value for a key replaces the earlier one, at the place of the
  earlier one.
\<close>

fun dict_set :: "(string \<times> json) list \<Rightarrow> string \<Rightarrow> json \<Rightarrow> (string \<times> json) list" where
  "dict_set [] key v = [(key, v)]"
| "dict_set ((k, w) # kvs) key v =
     (if k = key then (k, v) # kvs else (k, w) # dict_set kvs key v)"

fun py_dict :: "(string \<times> json) list \<Rightarrow> (string \<times> json) list \<Rightarrow> (string \<times> json) list" where
  "py_dict d [] = d"
| "py_dict d ((key, v) # pairs) = py_dict (dict_set d key v) pairs"

text \<open>
  \<open>scan_once\<close> with the loops of \<open>JSONArray\<close> (at a value of the array) and of
  \<open>JSONObject\<close> (after the opening quote of a key).  The first argument bounds the
  number of values read; \<open>json_loads\<close> passes the length of the text, and each value
  takes at least one character.
\<close>

fun scan_once :: "nat \<Rightarrow> string \<Rightarrow> (json \<times> string) option"
  and parse_array :: "nat \<Rightarrow> string \<Rightarrow> json list \<Rightarrow> (json \<times> string) option"
  and parse_object :: "nat \<Rightarrow> string \<Rightarrow> (string \<times> json) list \<Rightarrow> (json \<times> string) option"
where
  "scan_once 0 s = None"
| "scan_once (Suc fuel) s =
     (case s of
        [] \<Rightarrow> None
      | c # cs \<Rightarrow>
          if c = CHR 0x22 then
            (case scanstring cs of None \<Rightarrow> None | Some (t, rest) \<Rightarrow> Some (JStr t, rest))
          else if c = CHR ''{'' then
            (case skip_ws cs of
               [] \<Rightarrow> None
             | c1 # cs1 \<Rightarrow>
                 if c1 = CHR ''}'' then Some (JDict [], cs1)
                 else if c1 = CHR 0x22 then parse_object fuel cs1 []
                 else None)
          else if c = CHR ''['' then
            (case skip_ws cs of
               [] \<Rightarrow> None
             | c1 # cs1 \<Rightarrow>
                 if c1 = CHR '']'' then Some (JList [], cs1)
                 else parse_array fuel (c1 # cs1) [])
          else if startswith s ''null'' then Some (JNull, drop 4 s)
          else if startswith s ''true'' then Some (JBool True, drop 4 s)
          else if startswith s ''false'' then Some (JBool False, drop 5 s)
          else match_number s)"
| "parse_array 0 s vals = None"
| "parse_array (Suc fuel) s vals =
     (case scan_once fuel s of
        None \<Rightarrow> None
      | Some (v, s1) \<Rightarrow>
          (case skip_ws s1 of
             [] \<Rightarrow> None
           | c # cs \<Rightarrow>
               if c = CHR '']'' then Some (JList (vals @ [v]), cs)
               else if c = CHR '','' then parse_array fuel (skip_ws cs) (vals @ [v])
               else None))"
| "parse_object 0 s pairs = None"
| "parse_object (Suc fuel) s pairs =
     (case scanstring s of
        None \<Rightarrow> None
      | Some (key, s1) \<Rightarrow>
          (case skip_ws s1 of
             [] \<Rightarrow> None
           | c # cs \<Rightarrow>
               if c \<noteq> CHR '':'' then None
               else
                 (case scan_once fuel (skip_ws cs) of
                    None \<Rightarrow> None
                  | Some (v, s2) \<Rightarrow>
                      (case skip_ws s2 of
                         [] \<Rightarrow> None
                       | c2 # cs2 \<Rightarrow>
                           if c2 = CHR ''}'' then Some (JDict (py_dict [] (pairs @ [(key, v)])), cs2)
                           else if c2 = CHR '','' then
                             (case skip_ws cs2 of
                                [] \<Rightarrow> None
                              | q # cs3 \<Rightarrow>
                                  if q = CHR 0x22 then parse_object fuel cs3 (pairs @ [(key, v)])
                                  else None)
                           else None))))"

definition json_loads :: "string \<Rightarrow> json option" where
  "json_loads s =
     (case scan_once (length s) (skip_ws s) of
        None \<Rightarrow> None
      | Some (obj, rest) \<Rightarrow> if skip_ws rest = [] then Some obj else None)"

text \<open>\<open>get_evolution_line_dict\<close>: the text of \<open>get_evolution_line\<close>, parsed.\<close>

definition get_evolution_line_dict :: "dataframe \<Rightarrow> string \<Rightarrow> json option" where
  "get_evolution_line_dict df digimon_name = json_loads (get_evolution_line df digimon_name)"

text \<open>
  What follows a value in a text written by \<open>json.dumps\<close> with an indent: the end of the
  text, a comma or a line feed.
\<close>

definition value_end :: "string \<Rightarrow> bool" where
  "value_end rest = (case rest of [] \<Rightarrow> True | c # _ \<Rightarrow> c = CHR '','' \<or> c = CHR 0x0A)"

text \<open>The first character of a value in a text written by \<open>json.dumps\<close>.\<close>

definition value_start :: "char \<Rightarrow> bool" where
  "value_start c =
     (c = CHR 0x22 \<or> c = CHR ''{'' \<or> c = CHR ''['' \<or> c = CHR ''n'' \<or> c = CHR ''t''
      \<or> c = CHR ''f'' \<or> c = CHR ''-'' \<or> is_digit c)"

text \<open>
  A Python dictionary has each key once.  \<open>distinct_keys\<close> says so of every dictionary
  within a value.
\<close>

fun distinct_keys :: "json \<Rightarrow> bool" where
  "distinct_keys (JList vs) = list_all distinct_keys vs"
| "distinct_keys (JDict kvs) =
     (distinct (map fst kvs) \<and> list_all (\<lambda>kv. distinct_keys (snd kv)) kvs)"
| "distinct_keys JNull = True"
| "distinct_keys (JBool b) = True"
| "distinct_keys (JInt i) = True"
| "distinct_keys (JStr s) = True"

section \<open>Example frames\<close>

definition koromon :: row where
  "koromon = \<lparr>Number = Some 2, Name = ''Koromon'', Stage = ''II'', Attribute = ''Free'',
     others = [(''Evolutions'', Str ''Agumon'')]\<rparr>"

definition agumon :: row where
  "agumon = \<lparr>Number = Some 4, Name = ''Agumon'', Stage = ''III'', Attribute = ''Vaccine'',
     others = [(''Evolutions'', Str ''Greymon'')]\<rparr>"

definition agumon_x :: row where
  "agumon_x = \<lparr>Number = None, Name = ''AGUMON'', Stage = ''III'', Attribute = ''Virus'',
     others = [(''Evolutions'', Str '' Greymon ''), (''Unnamed: 5'', NaN),
               (''Unnamed: 6'', Str ''agumon''), (''Unnamed: 7'', Str ''  '')]\<rparr>"

definition scenario_a :: dataframe where
  "scenario_a = [koromon, agumon]"

definition scenario_c :: dataframe where
  "scenario_c = [koromon, agumon, agumon_x]"

definition koromon_x :: row where
  "koromon_x = \<lparr>Number = Some 2, Name = ''Koromon'', Stage = ''II'', Attribute = ''Free'',
     others = [(''Evolutions'', Str ''Agumon''), (''Unnamed: 5'', Str ''AGUMON ''),
               (''Unnamed: 6'', Str ''Ghostmon'')]\<rparr>"

definition scenario_dup :: dataframe where
  "scenario_dup = [koromon_x, agumon_x, agumon]"

definition sheet_a :: sheet where
  "sheet_a = \<lparr>columns = [''Number'', ''Name'', ''Stage'', ''Attribute'', ''Evolutions''],
     data = scenario_a\<rparr>"

definition sheet_no_number :: sheet where
  "sheet_no_number = \<lparr>columns = [''Name'', ''Stage'', ''Attribute'', ''Evolutions''],
     data = scenario_a\<rparr>"

definition scenario_first :: dataframe where
  "scenario_first = [koromon_x, agumon, agumon_x]"

text \<open>The message of the \<open>UnicodeEncodeError\<close> that \<open>print\<close> raises on an ASCII output.\<close>

definition ascii_codec_message :: string where
  "ascii_codec_message =
     [CHR 0x27] @ ''ascii'' @ [CHR 0x27] @ '' codec can'' @ [CHR 0x27] @ ''t encode character ''
       @ [CHR 0x27, CHR 0x5C] @ ''u2713'' @ [CHR 0x27]
       @ '' in position 0: ordinal not in range(128)''"


section \<open>Properties of the string operations\<close>

lemma strip_prefix_lstrip: "\<exists>ws. lstrip s = strip s @ ws"
proof -
  have "rev (lstrip s) = takeWhile is_space (rev (lstrip s)) @ dropWhile is_space (rev (lstrip s))"
    by simp
  then have "lstrip s = rev (dropWhile is_space (rev (lstrip s))) @ rev (takeWhile is_space (rev (lstrip s)))"
    by (metis rev_append rev_rev_ident)
  then show ?thesis
    unfolding strip_def rstrip_def by blast
qed

lemma strip_no_leading_space:
  assumes "strip s \<noteq> []"
  shows "\<not> is_space (hd (strip s))"
proof -
  obtain ws where ws: "lstrip s = strip s @ ws"
    using strip_prefix_lstrip by blast
  with assms have "hd (lstrip s) = hd (strip s)" and "lstrip s \<noteq> []"
    by simp_all
  moreover have "\<not> is_space (hd (dropWhile is_space s))" if "dropWhile is_space s \<noteq> []"
    using that by (rule hd_dropWhile)
  ultimately show ?thesis
    by (simp add: lstrip_def)
qed

lemma strip_no_trailing_space:
  assumes "strip s \<noteq> []"
  shows "\<not> is_space (last (strip s))"
proof -
  let ?t = "dropWhile is_space (rev (lstrip s))"
  from assms have ne: "?t \<noteq> []"
    by (simp add: strip_def rstrip_def)
  then have "\<not> is_space (hd ?t)"
    by (rule hd_dropWhile)
  moreover have "last (strip s) = hd ?t"
    using ne by (simp add: strip_def rstrip_def last_rev)
  ultimately show ?thesis
    by simp
qed

section \<open>Properties of the successor names\<close>

lemma collect_evolutions_acc:
  "collect_evolutions r cols acc = acc @ collect_evolutions r cols []"
proof (induction cols arbitrary: acc)
  case Nil
  show ?case by simp
next
  case (Cons col cols)
  have step: "collect_evolutions r cols (acc @ [x]) = acc @ collect_evolutions r cols [x]" for x
    using Cons.IH [of "acc @ [x]"] Cons.IH [of "[x]"] by simp
  show ?case
    using Cons.IH [of acc]
    by (simp add: step split: option.splits)
qed

lemma unnamed_not_base: "filter (\<lambda>col. str_in ''Unnamed'' col) base_columns = []"
  by (simp add: base_columns_def)

lemma evolution_columns_others:
  "evolution_columns r = ''Evolutions'' # filter (\<lambda>col. str_in ''Unnamed'' col) (map fst (others r))"
  by (simp add: evolution_columns_def row_index_def unnamed_not_base)

lemma row_get_other:
  assumes "col \<notin> set base_columns"
  shows "row_get r col = map_of (others r) col"
    and "col \<in> set (row_index r) \<longleftrightarrow> map_of (others r) col \<noteq> None"
proof -
  from assms show "row_get r col = map_of (others r) col"
    by (simp add: row_get_def base_columns_def)
  from assms show "col \<in> set (row_index r) \<longleftrightarrow> map_of (others r) col \<noteq> None"
    by (auto simp: row_index_def map_of_eq_None_iff)
qed

lemma collect_evolutions_closed:
  assumes "set cols \<inter> set base_columns = {}"
  shows "collect_evolutions r cols [] =
    map (\<lambda>v. strip (str_cell v))
      (filter (\<lambda>v. notna v \<and> strip (str_cell v) \<noteq> [])
        (List.map_filter (map_of (others r)) cols))"
  using assms
proof (induction cols)
  case Nil
  show ?case by (simp add: List.map_filter_simps)
next
  case (Cons col cols)
  then have nb: "col \<notin> set base_columns" and rest: "set cols \<inter> set base_columns = {}"
    by auto
  note IH = Cons.IH [OF rest]
  show ?case
  proof (cases "map_of (others r) col")
    case None
    then show ?thesis
      using IH row_get_other [OF nb, of r]
      by simp
  next
    case (Some v)
    have "collect_evolutions r cols [x] = x # collect_evolutions r cols []" for x
      using collect_evolutions_acc [of r cols "[x]"] by simp
    then show ?thesis
      using Some IH row_get_other [OF nb, of r]
      by simp
  qed
qed

lemma evolution_columns_not_base:
  "set (evolution_columns r) \<inter> set base_columns = {}"
proof -
  have "col \<notin> set base_columns" if "str_in ''Unnamed'' col" for col
    using that by (auto simp: base_columns_def)
  then show ?thesis
    by (auto simp: evolution_columns_others) (simp add: base_columns_def)
qed

lemma get_evolutions_from_row_closed:
  "get_evolutions_from_row r =
    map (\<lambda>v. strip (str_cell v))
      (filter (\<lambda>v. notna v \<and> strip (str_cell v) \<noteq> [])
        (List.map_filter (map_of (others r))
          (''Evolutions'' # filter (\<lambda>col. str_in ''Unnamed'' col) (map fst (others r)))))"
proof -
  have "collect_evolutions r (evolution_columns r) [] =
    map (\<lambda>v. strip (str_cell v))
      (filter (\<lambda>v. notna v \<and> strip (str_cell v) \<noteq> [])
        (List.map_filter (map_of (others r)) (evolution_columns r)))"
    by (rule collect_evolutions_closed [OF evolution_columns_not_base])
  then show ?thesis
    unfolding get_evolutions_from_row_def evolution_columns_others .
qed

lemma get_evolutions_from_row_stripped:
  assumes "e \<in> set (get_evolutions_from_row r)"
  shows "e \<noteq> [] \<and> \<not> is_space (hd e) \<and> \<not> is_space (last e)"
proof -
  from assms obtain v where "e = strip (str_cell v)" and "strip (str_cell v) \<noteq> []"
    by (auto simp: get_evolutions_from_row_closed)
  then show ?thesis
    using strip_no_leading_space strip_no_trailing_space by simp
qed

text \<open>
  C8.  The successor names of a row are the cells of the \<open>Evolutions\<close> column and then of
  the columns whose label contains \<open>Unnamed\<close>, in column order, without the missing and
  the blank ones, each rendered as text and stripped of surrounding whitespace; so no
  name is empty, and none begins or ends with a whitespace character.
\<close>

theorem get_evolutions_from_row_trimmed:
  "get_evolutions_from_row r =
     map (\<lambda>v. strip (str_cell v))
       (filter (\<lambda>v. notna v \<and> strip (str_cell v) \<noteq> [])
         (List.map_filter (map_of (others r))
           (''Evolutions'' # filter (\<lambda>col. str_in ''Unnamed'' col) (map fst (others r)))))
   \<and> (\<forall>e \<in> set (get_evolutions_from_row r).
         e \<noteq> [] \<and> \<not> is_space (hd e) \<and> \<not> is_space (last e))"
  using get_evolutions_from_row_closed get_evolutions_from_row_stripped by blast

theorem get_evolutions_from_row_trimmed_witness:
  "get_evolutions_from_row agumon_x = [''Greymon'', ''agumon'']
   \<and> ''Greymon'' \<in> set (get_evolutions_from_row agumon_x)
   \<and> ''Greymon'' \<noteq> [] \<and> \<not> is_space (hd ''Greymon'') \<and> \<not> is_space (last ''Greymon'')"
proof -
  have v: "get_evolutions_from_row agumon_x = [''Greymon'', ''agumon'']"
    by code_simp
  then have m: "''Greymon'' \<in> set (get_evolutions_from_row agumon_x)"
    by simp
  from get_evolutions_from_row_trimmed [of agumon_x] m
  have "''Greymon'' \<noteq> [] \<and> \<not> is_space (hd ''Greymon'') \<and> \<not> is_space (last ''Greymon'')"
    by blast
  with v m show ?thesis by blast
qed

section \<open>Properties of the predecessor and successor searches\<close>

lemma previous_loop_closed:
  "previous_loop rows nl acc =
     acc @ map evolution_entry
       (filter (\<lambda>r. \<exists>evo \<in> set (get_evolutions_from_row r). nl = lower evo) rows)"
proof (induction rows arbitrary: acc)
  case Nil
  show ?case by simp
next
  case (Cons r rows)
  show ?case
  proof (cases "\<exists>evo \<in> set (get_evolutions_from_row r). nl = lower evo")
    case True
    then show ?thesis
      using Cons.IH [of "acc @ [evolution_entry r]"]
      by (simp add: list_ex_iff)
  next
    case False
    then show ?thesis
      using Cons.IH [of acc]
      by (simp add: list_ex_iff)
  qed
qed

lemma find_previous_evolutions_closed:
  "find_previous_evolutions df n =
     map evolution_entry
       (filter (\<lambda>r. \<exists>evo \<in> set (get_evolutions_from_row r). lower n = lower evo) df)"
  by (simp add: find_previous_evolutions_def previous_loop_closed)

text \<open>
  C2.  The predecessors of a name are, in the order of the frame, the rows that list the
  name among their successor names (compared after lowercasing), each row once however
  many of its cells carry the name, and nothing else; the entry of a row holds the name,
  the stage and the number of that row.
\<close>

theorem find_previous_evolutions_per_row:
  "find_previous_evolutions df n =
     map (\<lambda>r. JDict [(''name'', JStr (Name r)), (''stage'', JStr (Stage r)),
                     (''number'', number_or_none r)])
       (filter (\<lambda>r. \<exists>evo \<in> set (get_evolutions_from_row r). lower n = lower evo) df)"
  by (simp add: find_previous_evolutions_closed evolution_entry_def)

theorem find_previous_evolutions_per_row_witness:
  "get_evolutions_from_row koromon_x = [''Agumon'', ''AGUMON'', ''Ghostmon'']
   \<and> find_previous_evolutions scenario_dup ''agumon'' =
       [JDict [(''name'', JStr ''Koromon''), (''stage'', JStr ''II''), (''number'', JInt 2)],
        JDict [(''name'', JStr ''AGUMON''), (''stage'', JStr ''III''), (''number'', JNull)]]"
proof -
  have e: "get_evolutions_from_row koromon_x = [''Agumon'', ''AGUMON'', ''Ghostmon'']"
    by code_simp
  have "map (\<lambda>r. JDict [(''name'', JStr (Name r)), (''stage'', JStr (Stage r)),
                     (''number'', number_or_none r)])
       (filter (\<lambda>r. \<exists>evo \<in> set (get_evolutions_from_row r). lower ''agumon'' = lower evo)
          scenario_dup) =
       [JDict [(''name'', JStr ''Koromon''), (''stage'', JStr ''II''), (''number'', JInt 2)],
        JDict [(''name'', JStr ''AGUMON''), (''stage'', JStr ''III''), (''number'', JNull)]]"
    by code_simp
  with find_previous_evolutions_per_row [of scenario_dup "''agumon''"] e
  show ?thesis by simp
qed

text \<open>
  C7.  Every row is found among the predecessors of each of its own successor names:
  its entry is in the list, and so an entry that carries its name.
\<close>

theorem find_previous_evolutions_own_successor:
  assumes "r \<in> set df" and "s \<in> set (get_evolutions_from_row r)"
  shows "evolution_entry r \<in> set (find_previous_evolutions df s)
    \<and> (\<exists>e \<in> set (find_previous_evolutions df s). dict_get e ''name'' = Some (JStr (Name r)))"
proof -
  from assms have "r \<in> set (filter (\<lambda>r. \<exists>evo \<in> set (get_evolutions_from_row r). lower s = lower evo) df)"
    by auto
  then have m: "evolution_entry r \<in> set (find_previous_evolutions df s)"
    unfolding find_previous_evolutions_closed by (simp only: set_map) (rule imageI)
  moreover have "dict_get (evolution_entry r) ''name'' = Some (JStr (Name r))"
    by (simp add: evolution_entry_def)
  ultimately show ?thesis by blast
qed

theorem find_previous_evolutions_own_successor_witness:
  "koromon_x \<in> set scenario_dup
   \<and> ''Ghostmon'' \<in> set (get_evolutions_from_row koromon_x)
   \<and> evolution_entry koromon_x \<in> set (find_previous_evolutions scenario_dup ''Ghostmon'')
   \<and> (\<exists>e \<in> set (find_previous_evolutions scenario_dup ''Ghostmon'').
         dict_get e ''name'' = Some (JStr ''Koromon''))"
proof -
  have r: "koromon_x \<in> set scenario_dup"
    by (simp add: scenario_dup_def)
  have "get_evolutions_from_row koromon_x = [''Agumon'', ''AGUMON'', ''Ghostmon'']"
    by code_simp
  then have s: "''Ghostmon'' \<in> set (get_evolutions_from_row koromon_x)"
    by simp
  have n: "Name koromon_x = ''Koromon''"
    by (simp add: koromon_x_def)
  from find_previous_evolutions_own_successor [OF r s] r s show ?thesis
    unfolding n by blast
qed

lemma find_by_filter:
  "List.find P xs = (case filter P xs of [] \<Rightarrow> None | x # _ \<Rightarrow> Some x)"
  by (induction xs) simp_all

lemma next_loop_closed:
  "next_loop df names acc =
     acc @ map (\<lambda>evo_name.
            case List.find (\<lambda>r. lower (Name r) = lower evo_name) df of
              Some evo_row \<Rightarrow> evolution_entry evo_row
            | None \<Rightarrow> name_only_entry evo_name) names"
proof (induction names arbitrary: acc)
  case Nil
  show ?case by simp
next
  case (Cons evo_name names)
  show ?case
  proof (cases "rows_by_name df evo_name")
    case Nil
    then show ?thesis
      using Cons.IH [of "acc @ [name_only_entry evo_name]"]
      by (simp add: find_by_filter rows_by_name_def)
  next
    case (Cons evo_row rest)
    then show ?thesis
      using Cons.IH [of "acc @ [evolution_entry evo_row]"]
      by (simp add: find_by_filter rows_by_name_def)
  qed
qed

lemma find_next_evolutions_closed:
  "find_next_evolutions df r =
     map (\<lambda>evo_name.
            case List.find (\<lambda>m. lower (Name m) = lower evo_name) df of
              Some evo_row \<Rightarrow> evolution_entry evo_row
            | None \<Rightarrow> name_only_entry evo_name) (get_evolutions_from_row r)"
  by (simp add: find_next_evolutions_def next_loop_closed)

text \<open>
  C3.  The successors of a row are one entry for each of its successor names, in the same
  order: the name, the stage and the number (null when the row has none) of the first
  row of the frame whose name equals the successor name after lowercasing, or, when no
  row has that name, the successor name as it stands with the stage and the number null.
\<close>

theorem find_next_evolutions_per_name:
  "find_next_evolutions df r =
     map (\<lambda>evo_name.
            case List.find (\<lambda>m. lower (Name m) = lower evo_name) df of
              Some evo_row \<Rightarrow>
                JDict [(''name'', JStr (Name evo_row)), (''stage'', JStr (Stage evo_row)),
                       (''number'', case Number evo_row of None \<Rightarrow> JNull | Some k \<Rightarrow> JInt k)]
            | None \<Rightarrow> JDict [(''name'', JStr evo_name), (''stage'', JNull), (''number'', JNull)])
       (get_evolutions_from_row r)"
  by (simp add: find_next_evolutions_closed evolution_entry_def name_only_entry_def
      number_or_none_def split: option.splits)

theorem find_next_evolutions_per_name_witness:
  "get_evolutions_from_row koromon_x = [''Agumon'', ''AGUMON'', ''Ghostmon'']
   \<and> find_next_evolutions scenario_first koromon_x =
       [JDict [(''name'', JStr ''Agumon''), (''stage'', JStr ''III''), (''number'', JInt 4)],
        JDict [(''name'', JStr ''Agumon''), (''stage'', JStr ''III''), (''number'', JInt 4)],
        JDict [(''name'', JStr ''Ghostmon''), (''stage'', JNull), (''number'', JNull)]]
   \<and> find_next_evolutions scenario_dup koromon_x =
       [JDict [(''name'', JStr ''AGUMON''), (''stage'', JStr ''III''), (''number'', JNull)],
        JDict [(''name'', JStr ''AGUMON''), (''stage'', JStr ''III''), (''number'', JNull)],
        JDict [(''name'', JStr ''Ghostmon''), (''stage'', JNull), (''number'', JNull)]]
   \<and> find_next_evolutions scenario_a koromon =
       [JDict [(''name'', JStr ''Agumon''), (''stage'', JStr ''III''), (''number'', JInt 4)]]"
proof -
  have e: "get_evolutions_from_row koromon_x = [''Agumon'', ''AGUMON'', ''Ghostmon'']"
    "get_evolutions_from_row koromon = [''Agumon'']"
    by code_simp+
  have first: "map (\<lambda>evo_name.
            case List.find (\<lambda>m. lower (Name m) = lower evo_name) scenario_first of
              Some evo_row \<Rightarrow>
                JDict [(''name'', JStr (Name evo_row)), (''stage'', JStr (Stage evo_row)),
                       (''number'', case Number evo_row of None \<Rightarrow> JNull | Some k \<Rightarrow> JInt k)]
            | None \<Rightarrow> JDict [(''name'', JStr evo_name), (''stage'', JNull), (''number'', JNull)])
       [''Agumon'', ''AGUMON'', ''Ghostmon''] =
       [JDict [(''name'', JStr ''Agumon''), (''stage'', JStr ''III''), (''number'', JInt 4)],
        JDict [(''name'', JStr ''Agumon''), (''stage'', JStr ''III''), (''number'', JInt 4)],
        JDict [(''name'', JStr ''Ghostmon''), (''stage'', JNull), (''number'', JNull)]]"
    by code_simp
  have dup: "map (\<lambda>evo_name.
            case List.find (\<lambda>m. lower (Name m) = lower evo_name) scenario_dup of
              Some evo_row \<Rightarrow>
                JDict [(''name'', JStr (Name evo_row)), (''stage'', JStr (Stage evo_row)),
                       (''number'', case Number evo_row of None \<Rightarrow> JNull | Some k \<Rightarrow> JInt k)]
            | None \<Rightarrow> JDict [(''name'', JStr evo_name), (''stage'', JNull), (''number'', JNull)])
       [''Agumon'', ''AGUMON'', ''Ghostmon''] =
       [JDict [(''name'', JStr ''AGUMON''), (''stage'', JStr ''III''), (''number'', JNull)],
        JDict [(''name'', JStr ''AGUMON''), (''stage'', JStr ''III''), (''number'', JNull)],
        JDict [(''name'', JStr ''Ghostmon''), (''stage'', JNull), (''number'', JNull)]]"
    by code_simp
  have a: "map (\<lambda>evo_name.
            case List.find (\<lambda>m. lower (Name m) = lower evo_name) scenario_a of
              Some evo_row \<Rightarrow>
                JDict [(''name'', JStr (Name evo_row)), (''stage'', JStr (Stage evo_row)),
                       (''number'', case Number evo_row of None \<Rightarrow> JNull | Some k \<Rightarrow> JInt k)]
            | None \<Rightarrow> JDict [(''name'', JStr evo_name), (''stage'', JNull), (''number'', JNull)])
       [''Agumon''] =
       [JDict [(''name'', JStr ''Agumon''), (''stage'', JStr ''III''), (''number'', JInt 4)]]"
    by code_simp
  from find_next_evolutions_per_name [of scenario_first koromon_x]
    find_next_evolutions_per_name [of scenario_dup koromon_x]
    find_next_evolutions_per_name [of scenario_a koromon]
  show ?thesis
    unfolding e first dup a by (simp only: e simp_thms)
qed

section \<open>Properties of the evolution line\<close>

lemma results_loop_closed:
  "results_loop df ms acc = acc @ map (lineage df) ms"
  by (induction ms arbitrary: acc) simp_all

lemma evolution_line_response_cases:
  "evolution_line_response df n =
     (case rows_by_name df n of
        [] \<Rightarrow> not_found_response n
      | [r] \<Rightarrow> lineage df r
      | r # r' # rs \<Rightarrow> multiple_response n (map (lineage df) (r # r' # rs)))"
  by (simp add: evolution_line_response_def results_loop_closed Let_def split: list.splits)

text \<open>
  C1.  The response follows the number of rows whose name equals the query after
  lowercasing.  None: the not-found dictionary, whose message ends with the query as it
  was given.  One: the lineage of that row (its own name, number, stage and attribute,
  its predecessors and its successors).  More than one: a dictionary whose message
  states how many there are and whose \<open>results\<close> are the lineages of all of them, in
  the order of the frame.
\<close>

theorem evolution_line_response_by_matches:
  "(rows_by_name df n = [] \<longrightarrow>
      evolution_line_response df n =
        JDict [(''error'', JBool True), (''message'', JStr (''Digimon not found: '' @ n))])
   \<and> (\<forall>r. rows_by_name df n = [r] \<longrightarrow>
      evolution_line_response df n =
        JDict [(''currentDigimon'',
                JDict [(''name'', JStr (Name r)), (''number'', number_or_none r),
                       (''stage'', JStr (Stage r)), (''attribute'', JStr (Attribute r))]),
               (''preEvolutions'', JList (find_previous_evolutions df (Name r))),
               (''postEvolutions'', JList (find_next_evolutions df r))])
   \<and> (1 < length (rows_by_name df n) \<longrightarrow>
      evolution_line_response df n =
        JDict [(''message'',
                JStr (''Found '' @ str_nat (length (rows_by_name df n)) @ '' results for: '' @ n)),
               (''results'', JList (map (lineage df) (rows_by_name df n)))])"
proof (intro conjI allI impI)
  assume "rows_by_name df n = []"
  then show "evolution_line_response df n =
      JDict [(''error'', JBool True), (''message'', JStr (''Digimon not found: '' @ n))]"
    by (simp add: evolution_line_response_cases not_found_response_def)
next
  fix r
  assume "rows_by_name df n = [r]"
  then show "evolution_line_response df n =
      JDict [(''currentDigimon'',
              JDict [(''name'', JStr (Name r)), (''number'', number_or_none r),
                     (''stage'', JStr (Stage r)), (''attribute'', JStr (Attribute r))]),
             (''preEvolutions'', JList (find_previous_evolutions df (Name r))),
             (''postEvolutions'', JList (find_next_evolutions df r))]"
    by (simp add: evolution_line_response_cases lineage_def current_digimon_def)
next
  assume "1 < length (rows_by_name df n)"
  then obtain r r' rs where "rows_by_name df n = r # r' # rs"
    by (cases "rows_by_name df n" rule: remdups_adj.cases) simp_all
  then show "evolution_line_response df n =
      JDict [(''message'',
              JStr (''Found '' @ str_nat (length (rows_by_name df n)) @ '' results for: '' @ n)),
             (''results'', JList (map (lineage df) (rows_by_name df n)))]"
    by (simp add: evolution_line_response_cases multiple_response_def)
qed

theorem evolution_line_response_by_matches_witness:
  "rows_by_name scenario_dup ''Tyrannomon'' = []
   \<and> evolution_line_response scenario_dup ''Tyrannomon'' =
        JDict [(''error'', JBool True), (''message'', JStr ''Digimon not found: Tyrannomon'')]
   \<and> rows_by_name scenario_dup ''KOROMON'' = [koromon_x]
   \<and> evolution_line_response scenario_dup ''KOROMON'' =
        JDict [(''currentDigimon'',
                JDict [(''name'', JStr ''Koromon''), (''number'', JInt 2),
                       (''stage'', JStr ''II''), (''attribute'', JStr ''Free'')]),
               (''preEvolutions'', JList (find_previous_evolutions scenario_dup ''Koromon'')),
               (''postEvolutions'', JList (find_next_evolutions scenario_dup koromon_x))]
   \<and> 1 < length (rows_by_name scenario_dup ''agumon'')
   \<and> evolution_line_response scenario_dup ''agumon'' =
        JDict [(''message'', JStr ''Found 2 results for: agumon''),
               (''results'', JList [lineage scenario_dup agumon_x, lineage scenario_dup agumon])]"
proof -
  have none: "rows_by_name scenario_dup ''Tyrannomon'' = []"
    by code_simp
  have one: "rows_by_name scenario_dup ''KOROMON'' = [koromon_x]"
    by code_simp
  have two: "rows_by_name scenario_dup ''agumon'' = [agumon_x, agumon]"
    by code_simp
  have k: "Name koromon_x = ''Koromon''" "number_or_none koromon_x = JInt 2"
    "Stage koromon_x = ''II''" "Attribute koromon_x = ''Free''"
    by (simp_all add: koromon_x_def number_or_none_def)
  have c: "str_nat (Suc (Suc 0)) = ''2''"
    by code_simp
  note cases = evolution_line_response_by_matches [of scenario_dup]
  from cases [of "''Tyrannomon''"] none
  have "evolution_line_response scenario_dup ''Tyrannomon'' =
        JDict [(''error'', JBool True), (''message'', JStr ''Digimon not found: Tyrannomon'')]"
    by simp
  moreover from cases [of "''KOROMON''"] one
  have "evolution_line_response scenario_dup ''KOROMON'' =
        JDict [(''currentDigimon'',
                JDict [(''name'', JStr ''Koromon''), (''number'', JInt 2),
                       (''stage'', JStr ''II''), (''attribute'', JStr ''Free'')]),
               (''preEvolutions'', JList (find_previous_evolutions scenario_dup ''Koromon'')),
               (''postEvolutions'', JList (find_next_evolutions scenario_dup koromon_x))]"
    by (simp add: k)
  moreover from cases [of "''agumon''"] two
  have "evolution_line_response scenario_dup ''agumon'' =
        JDict [(''message'', JStr ''Found 2 results for: agumon''),
               (''results'', JList [lineage scenario_dup agumon_x, lineage scenario_dup agumon])]"
    by (simp add: c)
  ultimately show ?thesis
    using none one two by simp
qed

section \<open>Properties of the not-found outcome\<close>

lemma newline_indent_0: "newline_indent 0 = [CHR 0x0A]"
  by (simp add: newline_indent_def)

lemma newline_indent_1: "newline_indent (Suc 0) = [CHR 0x0A, CHR '' '', CHR '' '']"
  by (simp add: newline_indent_def numeral_2_eq_2)

lemma json_dumps_not_found:
  "json_dumps (not_found_response n) =
     ''{'' @ [CHR 0x0A] @ ''  '' @ encode_basestring ''error'' @ '': true,'' @ [CHR 0x0A]
       @ ''  '' @ encode_basestring ''message'' @ '': ''
       @ encode_basestring (''Digimon not found: '' @ n) @ [CHR 0x0A] @ ''}''"
  by (simp add: json_dumps_def not_found_response_def newline_indent_0 newline_indent_1)

text \<open>
  C4.  For a query that no row matches, \<open>get_evolution_line\<close> returns a value, the JSON
  text of the not-found dictionary: \<open>error\<close> is \<open>true\<close> and \<open>message\<close> is the text
  \<open>Digimon not found: \<close> followed by the query as it was given.
\<close>

theorem get_evolution_line_not_found:
  assumes "\<forall>r \<in> set df. lower (Name r) \<noteq> lower n"
  shows "get_evolution_line df n =
     ''{'' @ [CHR 0x0A] @ ''  '' @ encode_basestring ''error'' @ '': true,'' @ [CHR 0x0A]
       @ ''  '' @ encode_basestring ''message'' @ '': ''
       @ encode_basestring (''Digimon not found: '' @ n) @ [CHR 0x0A] @ ''}''"
proof -
  from assms have "rows_by_name df n = []"
    by (simp add: rows_by_name_def filter_empty_conv)
  then have "evolution_line_response df n = not_found_response n"
    by (simp add: evolution_line_response_cases)
  then show ?thesis
    by (simp only: get_evolution_line_def json_dumps_not_found)
qed

theorem get_evolution_line_not_found_witness:
  "lower (Name koromon) \<noteq> lower ''Tyrannomon'' \<and> lower (Name agumon) \<noteq> lower ''Tyrannomon''
   \<and> get_evolution_line scenario_a ''Tyrannomon'' =
       ''{'' @ [CHR 0x0A] @ ''  '' @ [CHR 0x22] @ ''error'' @ [CHR 0x22] @ '': true,'' @ [CHR 0x0A]
       @ ''  '' @ [CHR 0x22] @ ''message'' @ [CHR 0x22] @ '': ''
       @ [CHR 0x22] @ ''Digimon not found: Tyrannomon'' @ [CHR 0x22] @ [CHR 0x0A] @ ''}''"
proof -
  have a: "lower (Name koromon) \<noteq> lower ''Tyrannomon''"
    by code_simp
  have b: "lower (Name agumon) \<noteq> lower ''Tyrannomon''"
    by code_simp
  from a b have h: "\<forall>r \<in> set scenario_a. lower (Name r) \<noteq> lower ''Tyrannomon''"
    by (simp add: scenario_a_def)
  have e: "encode_basestring ''error'' = [CHR 0x22] @ ''error'' @ [CHR 0x22]"
    "encode_basestring ''message'' = [CHR 0x22] @ ''message'' @ [CHR 0x22]"
    "encode_basestring (''Digimon not found: '' @ ''Tyrannomon'') =
       [CHR 0x22] @ ''Digimon not found: Tyrannomon'' @ [CHR 0x22]"
    by code_simp+
  from get_evolution_line_not_found [OF h] a b show ?thesis
    unfolding e by simp
qed

section \<open>Properties of the query's letter case\<close>

lemma rows_by_name_lower:
  "lower n = lower n' \<Longrightarrow> rows_by_name df n = rows_by_name df n'"
  unfolding rows_by_name_def
  by (rule arg_cong [where f = "\<lambda>x. filter (\<lambda>r. lower (Name r) = x) df"])

text \<open>
  C5.  Two queries that are equal after lowercasing select the same rows.  With one
  matching row the two responses are equal.  With none, and with more than one, each
  response repeats its own query, as it was given, in its message; the list of lineages
  of the second case is the same for both.
\<close>

theorem evolution_line_response_same_rows:
  assumes "lower n = lower n'"
  shows "rows_by_name df n = rows_by_name df n'
    \<and> (length (rows_by_name df n) = 1 \<longrightarrow>
         evolution_line_response df n = evolution_line_response df n')
    \<and> (rows_by_name df n = [] \<longrightarrow>
         evolution_line_response df n = not_found_response n
         \<and> evolution_line_response df n' = not_found_response n')
    \<and> (1 < length (rows_by_name df n) \<longrightarrow>
         evolution_line_response df n = multiple_response n (map (lineage df) (rows_by_name df n))
         \<and> evolution_line_response df n' = multiple_response n' (map (lineage df) (rows_by_name df n)))"
proof -
  have same: "rows_by_name df n' = rows_by_name df n"
    by (rule rows_by_name_lower [OF assms, symmetric])
  show ?thesis
  proof (cases "rows_by_name df n" rule: remdups_adj.cases)
    case 1
    then show ?thesis
      using same by (simp add: evolution_line_response_cases)
  next
    case (2 r)
    then show ?thesis
      using same by (simp add: evolution_line_response_cases)
  next
    case (3 r r' rs)
    then show ?thesis
      using same by (simp add: evolution_line_response_cases)
  qed
qed

theorem evolution_line_response_same_rows_witness:
  "lower ''koromon'' = lower ''KOROMON''
   \<and> rows_by_name scenario_dup ''koromon'' = rows_by_name scenario_dup ''KOROMON''
   \<and> length (rows_by_name scenario_dup ''koromon'') = 1
   \<and> evolution_line_response scenario_dup ''koromon'' = evolution_line_response scenario_dup ''KOROMON''
   \<and> lower ''agumon'' = lower ''AGUMON''
   \<and> 1 < length (rows_by_name scenario_dup ''agumon'')
   \<and> evolution_line_response scenario_dup ''AGUMON'' =
       multiple_response ''AGUMON'' (map (lineage scenario_dup) (rows_by_name scenario_dup ''agumon''))
   \<and> lower ''ghostmon'' = lower ''Ghostmon''
   \<and> rows_by_name scenario_dup ''ghostmon'' = []
   \<and> evolution_line_response scenario_dup ''Ghostmon'' = not_found_response ''Ghostmon''"
proof -
  have k: "lower ''koromon'' = lower ''KOROMON''"
    by code_simp
  have k1: "length (rows_by_name scenario_dup ''koromon'') = 1"
    by code_simp
  have a: "lower ''agumon'' = lower ''AGUMON''"
    by code_simp
  have a2: "1 < length (rows_by_name scenario_dup ''agumon'')"
    by code_simp
  have g: "lower ''ghostmon'' = lower ''Ghostmon''"
    by code_simp
  have g0: "rows_by_name scenario_dup ''ghostmon'' = []"
    by code_simp
  from evolution_line_response_same_rows [OF k, of scenario_dup] k1
    evolution_line_response_same_rows [OF a, of scenario_dup] a2
    evolution_line_response_same_rows [OF g, of scenario_dup] g0
  show ?thesis
    using k a g by simp
qed

text \<open>
  The responses to two such queries differ where the query is repeated: on a name that
  no row carries, and on a name that two rows carry.
\<close>

theorem evolution_line_response_case_counterexample:
  "lower ''tyrannomon'' = lower ''TYRANNOMON''
   \<and> evolution_line_response scenario_a ''tyrannomon'' \<noteq> evolution_line_response scenario_a ''TYRANNOMON''
   \<and> lower ''agumon'' = lower ''AGUMON''
   \<and> evolution_line_response scenario_c ''agumon'' \<noteq> evolution_line_response scenario_c ''AGUMON''"
proof -
  have "lower ''tyrannomon'' = lower ''TYRANNOMON''"
    by code_simp
  moreover have "evolution_line_response scenario_a ''tyrannomon'' = not_found_response ''tyrannomon''"
    and "evolution_line_response scenario_a ''TYRANNOMON'' = not_found_response ''TYRANNOMON''"
    by code_simp+
  moreover have "lower ''agumon'' = lower ''AGUMON''"
    by code_simp
  moreover have "dict_get (evolution_line_response scenario_c ''agumon'') ''message'' =
      Some (JStr ''Found 2 results for: agumon'')"
    and "dict_get (evolution_line_response scenario_c ''AGUMON'') ''message'' =
      Some (JStr ''Found 2 results for: AGUMON'')"
    by code_simp+
  ultimately show ?thesis
    by (auto simp: not_found_response_def)
qed

section \<open>Properties of the number fields\<close>



section \<open>Properties of loading\<close>

lemma startswith_append: "startswith (p @ s) p"
  by (induction p) simp_all

lemma str_in_startswith: "startswith s sub \<Longrightarrow> str_in sub s"
  by (cases s; cases sub) simp_all

lemma str_in_append: "str_in sub (a @ sub @ b)"
proof (induction a)
  case Nil
  show ?case
    using startswith_append [of sub b] by (simp add: str_in_startswith)
next
  case (Cons c a)
  then show ?case by simp
qed

lemma join_labels_mentions:
  assumes "col \<in> set cols"
  shows "\<exists>a b. join_labels cols = a @ col @ b"
  using assms
proof (induction cols rule: join_labels.induct)
  case 1
  then show ?case by simp
next
  case (2 c)
  then have "join_labels [c] = [CHR 0x27] @ col @ [CHR 0x27]"
    by simp
  then show ?case by blast
next
  case (3 c c' cols)
  show ?case
  proof (cases "col = c")
    case True
    then have "join_labels (c # c' # cols) =
        [CHR 0x27] @ col @ ([CHR 0x27] @ '', '' @ join_labels (c' # cols))"
      by simp
    then show ?thesis by blast
  next
    case False
    with 3 obtain a b where "join_labels (c' # cols) = a @ col @ b"
      by auto
    then have "join_labels (c # c' # cols) = ([CHR 0x27] @ c @ [CHR 0x27] @ '', '' @ a) @ col @ b"
      by simp
    then show ?thesis by blast
  qed
qed

lemma missing_message_mentions:
  assumes "col \<in> set cols"
  shows "str_in col (''Error loading Excel file: '' @ ''Missing required columns: '' @ str_labels cols)"
proof -
  from join_labels_mentions [OF assms] obtain a b where "join_labels cols = a @ col @ b"
    by blast
  then have "''Error loading Excel file: '' @ ''Missing required columns: '' @ str_labels cols =
      (''Error loading Excel file: '' @ ''Missing required columns: '' @ ''['' @ a) @ col @ (b @ '']'')"
    by (simp add: str_labels_def)
  then show ?thesis
    by (simp only: str_in_append)
qed

text \<open>
  What loading does.  When a base column is not among the labels of the sheet it fails
  with an exception whose message contains the label of every base column that is
  missing.  An exception of the reader is passed on the same way, with its message after
  \<open>Error loading Excel file: \<close>.  When the sheet was read and has all four base columns,
  loading returns its rows if the \<open>print\<close> wrote its line, and fails with the message
  of the exception of the \<open>print\<close> if it did not.
\<close>

lemma load_data_outcomes:
  "(\<not> set base_columns \<subseteq> set (columns sh) \<longrightarrow>
      (\<exists>msg. load_data out (Inr sh) = Inl (Exception msg)
         \<and> (\<forall>col \<in> set base_columns. col \<notin> set (columns sh) \<longrightarrow> str_in col msg)))
   \<and> load_data out (Inl e) = Inl (Exception (''Error loading Excel file: '' @ e))
   \<and> (set base_columns \<subseteq> set (columns sh) \<longrightarrow>
        load_data Writes (Inr sh) = Inr (data sh)
        \<and> load_data (Fails m) (Inr sh) = Inl (Exception (''Error loading Excel file: '' @ m)))"
proof (intro conjI impI)
  let ?missing = "filter (\<lambda>col. col \<notin> set (columns sh)) base_columns"
  assume "\<not> set base_columns \<subseteq> set (columns sh)"
  then have ne: "?missing \<noteq> []"
    by (auto simp: filter_empty_conv)
  let ?msg = "''Error loading Excel file: '' @ ''Missing required columns: '' @ str_labels ?missing"
  from ne have "load_data out (Inr sh) = Inl (Exception ?msg)"
    by (simp add: load_data_def load_body_def Let_def)
  moreover have "str_in col ?msg" if "col \<in> set base_columns" "col \<notin> set (columns sh)" for col
    using that by (intro missing_message_mentions) simp
  ultimately show "\<exists>msg. load_data out (Inr sh) = Inl (Exception msg)
         \<and> (\<forall>col \<in> set base_columns. col \<notin> set (columns sh) \<longrightarrow> str_in col msg)"
    by blast
next
  show "load_data out (Inl e) = Inl (Exception (''Error loading Excel file: '' @ e))"
    by (simp add: load_data_def load_body_def)
next
  assume "set base_columns \<subseteq> set (columns sh)"
  then have none: "filter (\<lambda>col. col \<notin> set (columns sh)) base_columns = []"
    by (auto simp: filter_empty_conv)
  from none show "load_data Writes (Inr sh) = Inr (data sh)"
    by (simp add: load_data_def load_body_def)
  from none show "load_data (Fails m) (Inr sh) = Inl (Exception (''Error loading Excel file: '' @ m))"
    by (simp add: load_data_def load_body_def)
qed

lemma load_data_outcomes_example:
  "\<not> set base_columns \<subseteq> set (columns sheet_no_number)
   \<and> ''Number'' \<in> set base_columns \<and> ''Number'' \<notin> set (columns sheet_no_number)
   \<and> (\<exists>msg. load_data Writes (Inr sheet_no_number) = Inl (Exception msg) \<and> str_in ''Number'' msg)
   \<and> load_data Writes (Inl ''No such file'') = Inl (Exception ''Error loading Excel file: No such file'')
   \<and> set base_columns \<subseteq> set (columns sheet_a)
   \<and> load_data Writes (Inr sheet_a) = Inr scenario_a"
proof -
  have n: "''Number'' \<in> set base_columns" "''Number'' \<notin> set (columns sheet_no_number)"
    by (simp_all add: base_columns_def sheet_no_number_def)
  then have m: "\<not> set base_columns \<subseteq> set (columns sheet_no_number)"
    by blast
  have a: "set base_columns \<subseteq> set (columns sheet_a)"
    by (simp add: base_columns_def sheet_a_def)
  have d: "data sheet_a = scenario_a"
    by (simp add: sheet_a_def)
  from load_data_outcomes [of sheet_no_number Writes "''No such file''"] m n
  have "\<exists>msg. load_data Writes (Inr sheet_no_number) = Inl (Exception msg) \<and> str_in ''Number'' msg"
    by blast
  moreover from load_data_outcomes [of sheet_a Writes "''No such file''"] a d
  have "load_data Writes (Inl ''No such file'') = Inl (Exception ''Error loading Excel file: No such file'')"
    and "load_data Writes (Inr sheet_a) = Inr scenario_a"
    by simp_all
  ultimately show ?thesis
    using n m a by blast
qed

text \<open>
  C6.  On a sheet that was read and has all four base columns, loading does not return
  the rows when the standard output cannot encode the line that reports them: the
  exception of the \<open>print\<close> is caught by the handler of the \<open>try\<close> block and raised as
  a load error.  On the same sheet loading returns the rows when the line is written.
\<close>

theorem load_data_print_failure:
  "set base_columns \<subseteq> set (columns sheet_a)
   \<and> load_data (Fails ascii_codec_message) (Inr sheet_a) =
       Inl (Exception (''Error loading Excel file: '' @ ascii_codec_message))
   \<and> load_data Writes (Inr sheet_a) = Inr scenario_a"
  by (simp add: load_data_def load_body_def base_columns_def sheet_a_def)

section \<open>Properties of parsing\<close>

lemma hex_value_hex_digit: "d < 16 \<Longrightarrow> hex_value (hex_digit d) = Some d"
  by (auto simp: hex_value_def hex_digit_def Let_def)

lemma scanstring_escape_char:
  "scanstring (escape_char c @ s) =
     (case scanstring s of None \<Rightarrow> None | Some (chunk, rest) \<Rightarrow> Some (c # chunk, rest))"
proof -
  consider (special) "c \<in> {CHR 0x5C, CHR 0x22, CHR 0x08, CHR 0x0C, CHR 0x0A, CHR 0x0D, CHR 0x09}"
    | (control) "c \<notin> {CHR 0x5C, CHR 0x22, CHR 0x08, CHR 0x0C, CHR 0x0A, CHR 0x0D, CHR 0x09}"
        "(of_char c :: nat) < 32"
    | (plain) "c \<notin> {CHR 0x5C, CHR 0x22, CHR 0x08, CHR 0x0C, CHR 0x0A, CHR 0x0D, CHR 0x09}"
        "\<not> (of_char c :: nat) < 32"
    by blast
  then show ?thesis
  proof cases
    case special
    then show ?thesis
      by (auto simp: escape_char_def backslash_def)
  next
    case control
    let ?n = "of_char c :: nat"
    have d: "?n div 16 < 16" "?n mod 16 < 16"
      using control(2) by simp_all
    have "((0 * 16 + 0) * 16 + ?n div 16) * 16 + ?n mod 16 = ?n"
      by simp
    moreover have "hex_value CHR ''0'' = Some 0"
      by (simp add: hex_value_def)
    ultimately have "decode_uXXXX CHR ''0'' CHR ''0'' (hex_digit (?n div 16)) (hex_digit (?n mod 16)) = Some c"
      using control(2) by (simp add: decode_uXXXX_def hex_value_hex_digit [OF d(1)]
          hex_value_hex_digit [OF d(2)])
    then show ?thesis
      using control by (simp add: escape_char_def)
  next
    case plain
    then show ?thesis
      by (simp add: escape_char_def)
  qed
qed

lemma scanstring_escaped:
  "scanstring (concat (map escape_char s) @ CHR 0x22 # rest) = Some (s, rest)"
  by (induction s) (simp_all add: scanstring_escape_char)

lemma digit_char_digit:
  assumes "d < 10"
  shows "is_digit (digit_char d)" and "(of_char (digit_char d) :: nat) - 48 = d"
    and "digit_char d = CHR ''0'' \<longleftrightarrow> d = 0"
proof -
  have v: "(of_char (digit_char d) :: nat) = 48 + d"
    using assms by (simp add: digit_char_def)
  show "is_digit (digit_char d)"
    using assms by (simp add: is_digit_def v)
  show "(of_char (digit_char d) :: nat) - 48 = d"
    by (simp add: v)
  have "digit_char d = CHR ''0'' \<longleftrightarrow> (of_char (digit_char d) :: nat) = of_char CHR ''0''"
    by (metis char_of_char)
  then show "digit_char d = CHR ''0'' \<longleftrightarrow> d = 0"
    by (simp add: v)
qed

lemma int_of_digits_snoc:
  "int_of_digits acc (ds @ [d]) = int_of_digits acc ds * 10 + ((of_char d :: nat) - 48)"
  by (induction ds arbitrary: acc) simp_all

lemma str_nat_digits:
  "str_nat n \<noteq> [] \<and> (\<forall>c \<in> set (str_nat n). is_digit c)
   \<and> int_of_digits 0 (str_nat n) = n \<and> (hd (str_nat n) = CHR ''0'' \<longrightarrow> n = 0)"
proof (induction n rule: str_nat.induct)
  case (1 n)
  show ?case
  proof (cases "n < 10")
    case True
    then have "str_nat n = [digit_char n]"
      by (subst str_nat.simps) simp
    then show ?thesis
      using digit_char_digit [OF True] by simp
  next
    case False
    have m: "n mod 10 < 10"
      by simp
    from False have s: "str_nat n = str_nat (n div 10) @ [digit_char (n mod 10)]"
      by (subst str_nat.simps) simp
    from False have pos: "n div 10 \<noteq> 0"
      by simp
    from 1 [OF False] pos have ih: "str_nat (n div 10) \<noteq> []"
      "\<forall>c \<in> set (str_nat (n div 10)). is_digit c"
      "int_of_digits 0 (str_nat (n div 10)) = n div 10"
      "hd (str_nat (n div 10)) \<noteq> CHR ''0''"
      by auto
    show ?thesis
      unfolding s using ih digit_char_digit [OF m]
      by (simp add: int_of_digits_snoc)
  qed
qed

lemma match_integer_str_nat:
  assumes "rest = [] \<or> \<not> is_digit (hd rest)"
  shows "match_integer (str_nat n @ rest) = Some (str_nat n, rest)"
proof -
  from str_nat_digits [of n] obtain d t where dt: "str_nat n = d # t"
    and dig: "is_digit d" "\<forall>c \<in> set t. is_digit c" and zero: "d = CHR ''0'' \<longrightarrow> n = 0"
    by (cases "str_nat n") auto
  show ?thesis
  proof (cases "d = CHR ''0''")
    case True
    with zero have "n = 0" by simp
    then have "str_nat n = [digit_char 0]"
      by (subst str_nat.simps) simp
    with dt have "t = []" by simp
    with dt dig True show ?thesis
      by (simp add: match_integer_def)
  next
    case False
    from assms have "takeWhile is_digit rest = []" "dropWhile is_digit rest = rest"
      by (cases rest; simp)+
    with dig have "takeWhile is_digit (t @ rest) = t" "dropWhile is_digit (t @ rest) = rest"
      by (simp_all add: takeWhile_append2 dropWhile_append2)
    with dt dig False show ?thesis
      by (simp add: match_integer_def)
  qed
qed

lemma value_end_cases:
  assumes "value_end rest"
  shows "rest = [] \<or> \<not> is_digit (hd rest)" and "\<not> frac_or_exp rest"
proof -
  from assms show "rest = [] \<or> \<not> is_digit (hd rest)"
    by (cases rest) (auto simp: value_end_def is_digit_def)
  from assms show "\<not> frac_or_exp rest"
    by (cases rest rule: frac_or_exp.cases) (auto simp: value_end_def)
qed

lemma match_number_str_int:
  assumes "value_end rest"
  shows "match_number (str_int i @ rest) = Some (JInt i, rest)"
proof -
  note m = match_integer_str_nat [OF value_end_cases(1) [OF assms]]
  from str_nat_digits [of "nat i"] obtain d t where dt: "str_nat (nat i) = d # t" and dig: "is_digit d"
    by (cases "str_nat (nat i)") auto
  then have nm: "d \<noteq> CHR ''-''"
    by (auto simp: is_digit_def)
  show ?thesis
  proof (cases "i < 0")
    case True
    then show ?thesis
      using m [of "nat (- i)"] value_end_cases(2) [OF assms] str_nat_digits [of "nat (- i)"]
      by (simp add: match_number_def str_int_def)
  next
    case False
    have "match_integer (d # t @ rest) = Some (d # t, rest)"
      using m [of "nat i"] by (simp add: dt)
    with False show ?thesis
      using nm value_end_cases(2) [OF assms] str_nat_digits [of "nat i"]
      by (simp add: match_number_def str_int_def dt)
  qed
qed

lemma str_int_start:
  "\<exists>c t. str_int i = c # t \<and> (is_digit c \<or> c = CHR ''-'')"
  using str_nat_digits [of "nat i"]
  by (cases "str_nat (nat i)") (auto simp: str_int_def)

lemma scan_once_number:
  assumes "is_digit c \<or> c = CHR ''-''"
  shows "scan_once (Suc fuel) (c # s) = match_number (c # s)"
proof -
  from assms have "c \<noteq> CHR 0x22" "c \<noteq> CHR ''{''" "c \<noteq> CHR ''[''"
    "c \<noteq> CHR ''n''" "c \<noteq> CHR ''t''" "c \<noteq> CHR ''f''"
    by (auto simp: is_digit_def)
  then show ?thesis
    by simp
qed

lemma scan_once_str_int:
  assumes "value_end rest"
  shows "scan_once (Suc fuel) (str_int i @ rest) = Some (JInt i, rest)"
proof -
  from str_int_start obtain c t where ct: "str_int i = c # t" and c: "is_digit c \<or> c = CHR ''-''"
    by blast
  have "scan_once (Suc fuel) (c # t @ rest) = match_number (c # t @ rest)"
    using c by (rule scan_once_number)
  then show ?thesis
    using match_number_str_int [OF assms, of i] by (simp add: ct)
qed
lemma skip_ws_newline_indent: "skip_ws (newline_indent m @ s) = skip_ws s"
proof -
  have "skip_ws (replicate k CHR '' '' @ s) = skip_ws s" for k
    by (induction k) (simp_all add: skip_ws_def is_json_ws_def)
  then show ?thesis
    by (simp add: newline_indent_def skip_ws_def is_json_ws_def)
qed

lemma skip_ws_no_ws: "\<not> is_json_ws c \<Longrightarrow> skip_ws (c # s) = c # s"
  by (simp add: skip_ws_def)

lemma value_start_no_ws:
  assumes "value_start c"
  shows "\<not> is_json_ws c" and "c \<noteq> CHR '']''" and "c \<noteq> CHR ''}''"
  using assms by (auto simp: value_start_def is_json_ws_def is_digit_def)

lemma iterencode_start: "\<exists>c t. iterencode level v = c # t \<and> value_start c"
proof (cases v)
  case (JInt i)
  then show ?thesis
    using str_int_start [of i] by (auto simp: value_start_def)
next
  case (JList vs)
  then show ?thesis
    by (cases vs) (simp_all add: value_start_def)
next
  case (JDict kvs)
  then show ?thesis
    by (cases kvs) (simp_all add: value_start_def)
qed (simp_all add: value_start_def encode_basestring_def)

lemma skip_ws_iterencode:
  "skip_ws (newline_indent m @ iterencode level v @ s) = iterencode level v @ s"
  "skip_ws (CHR '' '' # iterencode level v @ s) = iterencode level v @ s"
  "skip_ws (iterencode level v @ s) = iterencode level v @ s"
proof -
  from iterencode_start obtain c t where ct: "iterencode level v = c # t" and "value_start c"
    by blast
  then have "\<not> is_json_ws c"
    by (simp add: value_start_no_ws)
  then show "skip_ws (iterencode level v @ s) = iterencode level v @ s"
    by (simp add: ct skip_ws_no_ws)
  then show "skip_ws (newline_indent m @ iterencode level v @ s) = iterencode level v @ s"
    by (simp add: skip_ws_newline_indent)
  show "skip_ws (CHR '' '' # iterencode level v @ s) = iterencode level v @ s"
    using \<open>skip_ws (iterencode level v @ s) = iterencode level v @ s\<close>
    by (simp add: skip_ws_def is_json_ws_def)
qed

lemma value_end_simps:
  "value_end []" "value_end (CHR '','' # s)" "value_end (newline_indent m @ s)"
  by (simp_all add: value_end_def newline_indent_def)

lemma parse_array_items:
  assumes "\<And>v fuel level rest. v \<in> set vs \<Longrightarrow> size v < fuel \<Longrightarrow> value_end rest
             \<Longrightarrow> scan_once fuel (iterencode level v @ rest) = Some (v, rest)"
    and "vs \<noteq> []" and "size_list size vs < fuel"
  shows "parse_array fuel (iterencode_list level vs @ newline_indent m @ CHR '']'' # rest) vals =
           Some (JList (vals @ vs), rest)"
  using assms
proof (induction vs arbitrary: fuel vals rule: induct_list012)
  case 1
  then show ?case by simp
next
  case (2 v)
  from 2(3) obtain f where f: "fuel = Suc f" and sz: "size v < f"
    by (cases fuel) simp_all
  have "scan_once f (iterencode level v @ newline_indent m @ CHR '']'' # rest) =
      Some (v, newline_indent m @ CHR '']'' # rest)"
    by (rule 2(1)) (simp_all add: sz value_end_simps)
  moreover have "skip_ws (newline_indent m @ CHR '']'' # rest) = CHR '']'' # rest"
    by (simp add: skip_ws_newline_indent skip_ws_no_ws is_json_ws_def)
  ultimately show ?case
    by (simp add: f)
next
  case (3 v w vs)
  from 3(5) obtain f where f: "fuel = Suc f" and sz: "size v < f" "size_list size (w # vs) < f"
    by (cases fuel) simp_all
  let ?tail = "iterencode_list level (w # vs) @ newline_indent m @ CHR '']'' # rest"
  have "scan_once f (iterencode level v @ CHR '','' # newline_indent level @ ?tail) =
      Some (v, CHR '','' # newline_indent level @ ?tail)"
    by (rule 3(3)) (simp_all add: sz value_end_simps)
  moreover have "skip_ws (CHR '','' # newline_indent level @ ?tail) = CHR '','' # newline_indent level @ ?tail"
    by (simp add: skip_ws_no_ws is_json_ws_def)
  moreover have "skip_ws (newline_indent level @ ?tail) = ?tail"
  proof (cases vs)
    case Nil
    then show ?thesis
      using skip_ws_iterencode(1) [of level level w] by simp
  next
    case (Cons x xs)
    then show ?thesis
      using skip_ws_iterencode(1) [of level level w] by simp
  qed
  moreover have "parse_array f ?tail (vals @ [v]) = Some (JList ((vals @ [v]) @ w # vs), rest)"
    by (rule 3(2)) (use 3(3) sz in simp_all)
  ultimately show ?case
    by (simp add: f)
qed
lemma iterencode_dict_start:
  "kvs \<noteq> [] \<Longrightarrow> iterencode_dict level kvs = CHR 0x22 # tl (iterencode_dict level kvs)"
proof -
  assume "kvs \<noteq> []"
  then obtain k v kws where "kvs = (k, v) # kws"
    by (cases kvs) auto
  then show ?thesis
    by (cases kws) (simp_all add: encode_basestring_def)
qed

lemma parse_object_members:
  assumes "\<And>k v fuel level rest. (k, v) \<in> set kvs \<Longrightarrow> size v < fuel \<Longrightarrow> value_end rest
             \<Longrightarrow> scan_once fuel (iterencode level v @ rest) = Some (v, rest)"
    and "kvs \<noteq> []" and "size_list (size_prod (\<lambda>x. 0) size) kvs < fuel"
  shows "parse_object fuel (tl (iterencode_dict level kvs) @ newline_indent m @ CHR ''}'' # rest) pairs =
           Some (JDict (py_dict [] (pairs @ kvs)), rest)"
  using assms
proof (induction kvs arbitrary: fuel pairs rule: induct_list012)
  case 1
  then show ?case by simp
next
  case (2 kv)
  obtain k v where kv: "kv = (k, v)"
    by (cases kv)
  from 2(3) obtain f where f: "fuel = Suc f" and sz: "size v < f"
    by (cases fuel) (simp_all add: kv)
  let ?close = "newline_indent m @ CHR ''}'' # rest"
  have "scanstring (concat (map escape_char k) @ CHR 0x22 # '': '' @ iterencode level v @ ?close) =
      Some (k, '': '' @ iterencode level v @ ?close)"
    by (rule scanstring_escaped)
  moreover have "skip_ws ('': '' @ iterencode level v @ ?close) = '': '' @ iterencode level v @ ?close"
    by (simp add: skip_ws_no_ws is_json_ws_def)
  moreover have "skip_ws (CHR '' '' # iterencode level v @ ?close) = iterencode level v @ ?close"
    by (rule skip_ws_iterencode)
  moreover have "scan_once f (iterencode level v @ ?close) = Some (v, ?close)"
    by (rule 2(1) [of k v]) (simp_all add: kv sz value_end_simps)
  moreover have "skip_ws ?close = CHR ''}'' # rest"
    by (simp add: skip_ws_newline_indent skip_ws_no_ws is_json_ws_def)
  ultimately show ?case
    by (simp add: f kv encode_basestring_def)
next
  case (3 kv kw kvs)
  obtain k v where kv: "kv = (k, v)"
    by (cases kv)
  from 3(5) obtain f where f: "fuel = Suc f" and sz: "size v < f"
    "size_list (size_prod (\<lambda>x. 0) size) (kw # kvs) < f"
    by (cases fuel) (simp_all add: kv)
  let ?more = "iterencode_dict level (kw # kvs) @ newline_indent m @ CHR ''}'' # rest"
  let ?tail = "CHR '','' # newline_indent level @ ?more"
  have start: "iterencode_dict level (kw # kvs) = CHR 0x22 # tl (iterencode_dict level (kw # kvs))"
    by (rule iterencode_dict_start) simp
  have "scanstring (concat (map escape_char k) @ CHR 0x22 # '': '' @ iterencode level v @ ?tail) =
      Some (k, '': '' @ iterencode level v @ ?tail)"
    by (rule scanstring_escaped)
  moreover have "skip_ws ('': '' @ iterencode level v @ ?tail) = '': '' @ iterencode level v @ ?tail"
    by (simp add: skip_ws_no_ws is_json_ws_def)
  moreover have "skip_ws (CHR '' '' # iterencode level v @ ?tail) = iterencode level v @ ?tail"
    by (rule skip_ws_iterencode)
  moreover have "scan_once f (iterencode level v @ ?tail) = Some (v, ?tail)"
    by (rule 3(3) [of k v]) (simp_all add: kv sz value_end_simps)
  moreover have "skip_ws ?tail = ?tail"
    by (simp add: skip_ws_no_ws is_json_ws_def)
  moreover have "skip_ws (newline_indent level @ ?more) =
      CHR 0x22 # tl (iterencode_dict level (kw # kvs)) @ newline_indent m @ CHR ''}'' # rest"
    by (subst start) (simp add: skip_ws_newline_indent skip_ws_no_ws is_json_ws_def)
  moreover have "parse_object f (tl (iterencode_dict level (kw # kvs)) @ newline_indent m @ CHR ''}'' # rest)
      (pairs @ [(k, v)]) = Some (JDict (py_dict [] ((pairs @ [(k, v)]) @ kw # kvs)), rest)"
  proof (rule 3(2))
    fix k' v' fuel level rest
    assume "(k', v') \<in> set (kw # kvs)" "size v' < fuel" "value_end rest"
    then show "scan_once fuel (iterencode level v' @ rest) = Some (v', rest)"
      by (intro 3(3) [of k' v']) simp_all
  qed (use sz in simp_all)
  ultimately show ?case
    by (simp add: f kv encode_basestring_def)
qed

lemma dict_set_fresh: "key \<notin> fst ` set d \<Longrightarrow> dict_set d key v = d @ [(key, v)]"
  by (induction d) auto

lemma py_dict_distinct:
  "distinct (map fst (d @ pairs)) \<Longrightarrow> py_dict d pairs = d @ pairs"
proof (induction pairs arbitrary: d)
  case Nil
  show ?case by simp
next
  case (Cons kv pairs)
  obtain k v where kv: "kv = (k, v)"
    by (cases kv)
  from Cons.prems have fresh: "k \<notin> fst ` set d" and "distinct (map fst ((d @ [(k, v)]) @ pairs))"
    by (auto simp: kv)
  then show ?case
    using Cons.IH [of "d @ [(k, v)]"] by (simp add: kv dict_set_fresh)
qed

lemma scan_once_iterencode:
  "distinct_keys v \<Longrightarrow> size v < fuel \<Longrightarrow> value_end rest
     \<Longrightarrow> scan_once fuel (iterencode level v @ rest) = Some (v, rest)"
proof (induction v arbitrary: fuel level rest)
  case JNull
  then obtain f where "fuel = Suc f" by (cases fuel) simp_all
  then show ?case by simp
next
  case (JBool b)
  then obtain f where "fuel = Suc f" by (cases fuel) simp_all
  then show ?case by simp
next
  case (JInt i)
  then obtain f where "fuel = Suc f" by (cases fuel) simp_all
  with JInt.prems(3) show ?case by (simp only: iterencode.simps scan_once_str_int)
next
  case (JStr s)
  then obtain f where "fuel = Suc f" by (cases fuel) simp_all
  then show ?case
    using scanstring_escaped [of s rest] by (simp add: encode_basestring_def)
next
  case (JList vs)
  from JList.prems obtain f where f: "fuel = Suc f" and sz: "size_list size vs < f"
    by (cases fuel) simp_all
  show ?case
  proof (cases vs)
    case Nil
    then show ?thesis
      by (simp add: f skip_ws_no_ws is_json_ws_def)
  next
    case (Cons w ws)
    from iterencode_start obtain c t where ct: "iterencode (Suc level) w = c # t" and c: "value_start c"
      by blast
    define body where "body = tl (iterencode_list (Suc level) vs)"
    have items: "iterencode_list (Suc level) (w # ws) = c # body"
      using ct by (cases ws) (simp_all add: Cons body_def)
    let ?close = "newline_indent level @ CHR '']'' # rest"
    have "parse_array f (iterencode_list (Suc level) vs @ ?close) [] = Some (JList ([] @ vs), rest)"
    proof (rule parse_array_items)
      fix v fuel level rest
      assume "v \<in> set vs" "size v < fuel" "value_end rest"
      with JList.prems(1) show "scan_once fuel (iterencode level v @ rest) = Some (v, rest)"
        by (intro JList.IH) (simp_all add: list_all_iff)
    qed (use sz in \<open>simp_all add: Cons\<close>)
    then have parsed: "parse_array f (c # body @ ?close) [] = Some (JList (w # ws), rest)"
      by (simp add: Cons items)
    have skipped: "skip_ws (newline_indent (Suc level) @ c # body @ ?close) = c # body @ ?close"
      by (simp add: skip_ws_newline_indent skip_ws_no_ws value_start_no_ws [OF c])
    have "iterencode level (JList (w # ws)) @ rest =
        CHR ''['' # newline_indent (Suc level) @ c # body @ ?close"
      by (simp add: items del: iterencode_list.simps)
    then show ?thesis
      using value_start_no_ws(2) [OF c]
      by (simp add: f Cons parsed skipped del: iterencode.simps)
  qed
next
  case (JDict kvs)
  from JDict.prems obtain f where f: "fuel = Suc f"
    and sz: "size_list (size_prod (\<lambda>x. 0) size) kvs < f"
    by (cases fuel) simp_all
  show ?case
  proof (cases kvs)
    case Nil
    then show ?thesis
      by (simp add: f skip_ws_no_ws is_json_ws_def)
  next
    case (Cons kw kws)
    define body where "body = tl (iterencode_dict (Suc level) kvs)"
    have members: "iterencode_dict (Suc level) (kw # kws) = CHR 0x22 # body"
      using iterencode_dict_start [of kvs "Suc level"] by (simp add: Cons body_def)
    let ?close = "newline_indent level @ CHR ''}'' # rest"
    have "parse_object f (tl (iterencode_dict (Suc level) kvs) @ ?close) [] =
        Some (JDict (py_dict [] ([] @ kvs)), rest)"
    proof (rule parse_object_members)
      fix k v fuel level rest
      assume "(k, v) \<in> set kvs" "size v < fuel" "value_end rest"
      with JDict.prems(1) show "scan_once fuel (iterencode level v @ rest) = Some (v, rest)"
        by (intro JDict.IH [of "(k, v)"]) (auto simp: list_all_iff)
    qed (use sz in \<open>simp_all add: Cons\<close>)
    moreover have "py_dict [] kvs = kvs"
      using JDict.prems(1) py_dict_distinct [where d = "[]" and pairs = kvs] by simp
    ultimately have parsed: "parse_object f (body @ ?close) [] = Some (JDict (kw # kws), rest)"
      by (simp add: Cons body_def)
    have skipped: "skip_ws (newline_indent (Suc level) @ CHR 0x22 # body @ ?close) =
        CHR 0x22 # body @ ?close"
      by (simp add: skip_ws_newline_indent skip_ws_no_ws is_json_ws_def)
    have "iterencode level (JDict (kw # kws)) @ rest =
        CHR ''{'' # newline_indent (Suc level) @ CHR 0x22 # body @ ?close"
      by (simp add: members del: iterencode_dict.simps)
    then show ?thesis
      by (simp add: f Cons parsed skipped del: iterencode.simps)
  qed
qed
lemma size_list_le_iterencode_list:
  assumes "\<And>v level. v \<in> set vs \<Longrightarrow> size v < length (iterencode level v)"
  shows "size_list size vs \<le> length (iterencode_list level vs)"
  using assms
proof (induction vs rule: induct_list012)
  case 1
  show ?case by simp
next
  case (2 v)
  from 2 [of v level] show ?case by simp
next
  case (3 v w vs)
  have "size_list size (w # vs) \<le> length (iterencode_list level (w # vs))"
    by (rule 3(2)) (simp add: 3(3))
  moreover have "size v < length (iterencode level v)"
    by (rule 3(3)) simp
  ultimately show ?case by simp
qed

lemma size_list_le_iterencode_dict:
  assumes "\<And>k v level. (k, v) \<in> set kvs \<Longrightarrow> size v < length (iterencode level v)"
  shows "size_list (size_prod (\<lambda>x. 0) size) kvs \<le> length (iterencode_dict level kvs)"
  using assms
proof (induction kvs rule: induct_list012)
  case 1
  show ?case by simp
next
  case (2 kv)
  obtain k v where kv: "kv = (k, v)"
    by (cases kv)
  from 2 [of k v level] show ?case
    by (simp add: kv encode_basestring_def)
next
  case (3 kv kw kvs)
  obtain k v where kv: "kv = (k, v)"
    by (cases kv)
  have "size_list (size_prod (\<lambda>x. 0) size) (kw # kvs) \<le> length (iterencode_dict level (kw # kvs))"
  proof (rule 3(2))
    fix k' v' level
    assume "(k', v') \<in> set (kw # kvs)"
    then show "size v' < length (iterencode level v')"
      by (intro 3(3) [of k' v']) simp
  qed
  moreover have "size v < length (iterencode level v)"
    by (rule 3(3) [of k v]) (simp add: kv)
  ultimately show ?case
    by (simp add: kv encode_basestring_def)
qed

lemma size_less_iterencode: "size v < length (iterencode level v)"
proof (induction v arbitrary: level)
  case (JInt i)
  from str_int_start [of i] show ?case by auto
next
  case (JList vs)
  show ?case
  proof (cases vs)
    case Nil
    then show ?thesis by simp
  next
    case (Cons w ws)
    have "size_list size vs \<le> length (iterencode_list (Suc level) vs)"
      by (rule size_list_le_iterencode_list) (rule JList.IH)
    then show ?thesis
      by (simp add: Cons del: iterencode_list.simps)
  qed
next
  case (JDict kvs)
  show ?case
  proof (cases kvs)
    case Nil
    then show ?thesis by simp
  next
    case (Cons kw kws)
    have "size_list (size_prod (\<lambda>x. 0) size) kvs \<le> length (iterencode_dict (Suc level) kvs)"
    proof (rule size_list_le_iterencode_dict)
      fix k v level
      assume "(k, v) \<in> set kvs"
      then show "size v < length (iterencode level v)"
        by (intro JDict.IH [of "(k, v)"]) simp_all
    qed
    then show ?thesis
      by (simp add: Cons del: iterencode_dict.simps)
  qed
qed (simp_all add: encode_basestring_def)

lemma json_loads_json_dumps:
  assumes "distinct_keys obj"
  shows "json_loads (json_dumps obj) = Some obj"
proof -
  have "scan_once (length (iterencode 0 obj)) (iterencode 0 obj @ []) = Some (obj, [])"
    using assms size_less_iterencode by (rule scan_once_iterencode) (simp add: value_end_def)
  moreover have "skip_ws (iterencode 0 obj) = iterencode 0 obj"
    using skip_ws_iterencode(3) [of 0 obj "[]"] by simp
  ultimately show ?thesis
    by (simp add: json_loads_def json_dumps_def skip_ws_def)
qed

lemma distinct_keys_entries:
  "distinct_keys (evolution_entry r)" "distinct_keys (name_only_entry e)"
  "distinct_keys (current_digimon r)"
  by (simp_all add: evolution_entry_def name_only_entry_def current_digimon_def number_or_none_def
      split: option.splits)

lemma distinct_keys_lineage: "distinct_keys (lineage df r)"
  by (simp add: lineage_def distinct_keys_entries find_previous_evolutions_closed
      find_next_evolutions_closed list_all_iff split: option.splits)

lemma distinct_keys_response: "distinct_keys (evolution_line_response df n)"
  by (simp add: evolution_line_response_cases not_found_response_def multiple_response_def
      distinct_keys_lineage list_all_iff split: list.splits)

text \<open>
  C10.  \<open>get_evolution_line_dict\<close> is the parse of the text that \<open>get_evolution_line\<close>
  returns, and parsing that text gives back the dictionary the text was written from:
  the two interfaces carry the same response.
\<close>

theorem get_evolution_line_dict_agrees:
  "get_evolution_line_dict df n = json_loads (get_evolution_line df n)
   \<and> get_evolution_line_dict df n = Some (evolution_line_response df n)"
  by (simp add: get_evolution_line_dict_def get_evolution_line_def json_loads_json_dumps
      distinct_keys_response)

theorem get_evolution_line_dict_agrees_witness:
  "get_evolution_line_dict scenario_a ''agumon'' =
     Some (JDict [(''currentDigimon'',
                   JDict [(''name'', JStr ''Agumon''), (''number'', JInt 4),
                          (''stage'', JStr ''III''), (''attribute'', JStr ''Vaccine'')]),
                  (''preEvolutions'',
                   JList [JDict [(''name'', JStr ''Koromon''), (''stage'', JStr ''II''),
                                 (''number'', JInt 2)]]),
                  (''postEvolutions'',
                   JList [JDict [(''name'', JStr ''Greymon''), (''stage'', JNull),
                                 (''number'', JNull)]])])"
proof -
  have "evolution_line_response scenario_a ''agumon'' =
     JDict [(''currentDigimon'',
                   JDict [(''name'', JStr ''Agumon''), (''number'', JInt 4),
                          (''stage'', JStr ''III''), (''attribute'', JStr ''Vaccine'')]),
                  (''preEvolutions'',
                   JList [JDict [(''name'', JStr ''Koromon''), (''stage'', JStr ''II''),
                                 (''number'', JInt 2)]]),
                  (''postEvolutions'',
                   JList [JDict [(''name'', JStr ''Greymon''), (''stage'', JNull),
                                 (''number'', JNull)]])]"
    by code_simp
  moreover from get_evolution_line_dict_agrees [of scenario_a "''agumon''"]
  have "get_evolution_line_dict scenario_a ''agumon'' =
      Some (evolution_line_response scenario_a ''agumon'')"
    by (rule conjunct2)
  ultimately show ?thesis
    by (simp only:)
qed

text \<open>The parser run on the text of a not-found response.\<close>

lemma json_loads_not_found_example:
  "json_loads (get_evolution_line scenario_a ''Tyrannomon'') =
     Some (JDict [(''error'', JBool True), (''message'', JStr ''Digimon not found: Tyrannomon'')])"
  by code_simp

end
